theory Spec2Isabelle
  imports Complex_Main
begin

section \<open>The game service of temple-run-angular\<close>

text \<open>
  A shallow embedding of \<^verbatim>\<open>src/app/services/game.service.ts\<close> (class
  \<^verbatim>\<open>GameService\<close>). The mutable fields of the service are the fields of the record
  \<open>game\<close>; every method is a function from the state to the new state.

  Numbers. JavaScript numbers are IEEE doubles; here they are the reals, so every sum
  and product is exact, and the theorems are about this exact arithmetic. Lane indices
  are integers. Two loops count steps of an accumulated sum. The jump adds \<open>0.05\<close> until
  the sum is no longer below \<open>1\<close>: twenty additions in the reals, and twenty in doubles
  (the sum is then \<open>1.0000000000000002\<close>). The lane change adds \<open>0.1\<close>: ten additions in
  the reals and eleven in doubles (the tenth sum is \<open>0.9999999999999999\<close>); no theorem
  below counts the steps of a lane change.

  Rendering. The calls into three.js that only build meshes, materials and lights, and
  \<^verbatim>\<open>scene.add\<close>/\<^verbatim>\<open>scene.remove\<close>, have no part in the game state and are left out;
  of an \<^verbatim>\<open>Object3D\<close> the model keeps the position and the two rotation angles the
  service writes.
\<close>

subsection \<open>Data\<close>

datatype shape = Player | Rock | Log | Statue | Coin

record object3d =
  shape :: shape
  px :: real
  py :: real
  pz :: real
  rotx :: real
  rotz :: real

text \<open>The value of the \<^verbatim>\<open>_gameState\<close> subject (interface \<^verbatim>\<open>GameState\<close>).\<close>

record gameState =
  isGameOver :: bool
  isGameActive :: bool

text \<open>
  \<^verbatim>\<open>Math.random()\<close> returns a number \<open>r\<close> with \<open>0 \<le> r < 1\<close>; the type \<open>rand\<close> is
  that contract. The random source of a run is the sequence of the numbers it will
  return, with a count of those already drawn.
\<close>

typedef rand = "{r :: real. 0 \<le> r \<and> r < 1}"
proof
  show "0 \<in> {r :: real. 0 \<le> r \<and> r < 1}" by simp
qed

text \<open>
  The closures handed to \<^verbatim>\<open>requestAnimationFrame\<close>, with the variables they capture:
  \<^verbatim>\<open>animateLaneChange\<close> (\<^verbatim>\<open>startX\<close>, \<^verbatim>\<open>targetX\<close>, \<^verbatim>\<open>progress\<close>) and
  \<^verbatim>\<open>animateJump\<close> (\<^verbatim>\<open>initialY\<close>, \<^verbatim>\<open>jumpProgress\<close>).
\<close>

datatype callback =
  AnimateLaneChange real real real
| AnimateJump real real

record game =
  player :: object3d
  obstacles :: "object3d list"
  coins :: "object3d list"
  score :: real
  gameState :: gameState
  playerLane :: int
  isJumping :: bool
  speed :: real
  trackLength :: real
  trackPosition :: real
  frameCallbacks :: "callback list"
  randoms :: "nat \<Rightarrow> rand"
  randomCount :: nat

definition lanes :: "real list" where
  "lanes = [- 2, 0, 2]"

definition Math_random :: "game \<Rightarrow> real \<times> game" where
  "Math_random s = (Rep_rand (randoms s (randomCount s)), s\<lparr>randomCount := Suc (randomCount s)\<rparr>)"

subsection \<open>The layout generator\<close>

text \<open>
  \<^verbatim>\<open>createObstacle(x, z)\<close>: the type is drawn first; a rock and a log sit at height
  \<open>0.4\<close>, a statue at \<open>0.2\<close>.
\<close>

definition createObstacle :: "real \<Rightarrow> real \<Rightarrow> game \<Rightarrow> game" where
  "createObstacle x z s =
     (let (r, s1) = Math_random s;
          obstacleType = \<lfloor>r * 3\<rfloor>;
          obstacle =
            (if obstacleType = 0 then
               \<lparr>shape = Rock, px = x, py = 4 / 10, pz = z, rotx = 0, rotz = 0\<rparr>
             else if obstacleType = 1 then
               \<lparr>shape = Log, px = x, py = 4 / 10, pz = z, rotx = pi / 2, rotz = pi / 2\<rparr>
             else
               \<lparr>shape = Statue, px = x, py = 2 / 10, pz = z, rotx = 0, rotz = 0\<rparr>)
      in s1\<lparr>obstacles := obstacles s1 @ [obstacle]\<rparr>)"

definition createCoin :: "real \<Rightarrow> real \<Rightarrow> game \<Rightarrow> game" where
  "createCoin x z s =
     s\<lparr>coins := coins s @ [\<lparr>shape = Coin, px = x, py = 8 / 10, pz = z, rotx = pi / 2, rotz = 0\<rparr>]\<rparr>"

text \<open>
  The inner loop of the generator, for one lane: \<^verbatim>\<open>Math.random()\<close> is only called when
  the lane is not the obstacle's (\<^verbatim>\<open>&&\<close> short-circuits), and a second time for the
  jitter of a coin that is placed.
\<close>

definition coinInLane :: "int \<Rightarrow> real \<Rightarrow> int \<Rightarrow> game \<Rightarrow> game" where
  "coinInLane obstacleLane z lane s =
     (if lane \<noteq> obstacleLane then
        (let (r, s1) = Math_random s in
         if r > 3 / 10 then
           (let (j, s2) = Math_random s1 in createCoin (lanes ! nat lane) (z - j * 3) s2)
         else s1)
      else s)"

text \<open>
  The body of the outer loop, one row at depth \<open>z\<close>. The lane index is
  \<open>\<lfloor>r * 3\<rfloor>\<close> with \<open>0 \<le> r < 1\<close>, so the reads of \<open>lanes\<close> are in range.
\<close>

definition generateRow :: "real \<Rightarrow> game \<Rightarrow> game" where
  "generateRow z s =
     (let (r, s1) = Math_random s;
          obstacleLane = \<lfloor>r * 3\<rfloor>;
          s2 = createObstacle (lanes ! nat obstacleLane) z s1
      in fold (coinInLane obstacleLane z) [0, 1, 2] s2)"

lemma trackLength_Math_random [simp]: "trackLength (snd (Math_random s)) = trackLength s"
  by (simp add: Math_random_def)

lemma trackLength_createObstacle [simp]: "trackLength (createObstacle x z s) = trackLength s"
  by (simp add: createObstacle_def Math_random_def Let_def)

lemma trackLength_coinInLane [simp]: "trackLength (coinInLane l z lane s) = trackLength s"
  by (simp add: coinInLane_def createCoin_def Math_random_def Let_def)

lemma trackLength_generateRow [simp]: "trackLength (generateRow z s) = trackLength s"
  by (simp add: generateRow_def Math_random_def Let_def)

lemma Math_random_range: "0 \<le> fst (Math_random s) \<and> fst (Math_random s) < 1"
  using Rep_rand [of "randoms s (randomCount s)"] by (simp add: Math_random_def)

text \<open>
  \<^verbatim>\<open>for (let z = -15; z > -this.trackLength + 15; z -= Math.random() * 10 + 5)\<close>.
  Each step lowers \<open>z\<close> by at least \<open>5\<close>, which is why the loop ends.
\<close>

function generateLoop :: "real \<Rightarrow> game \<Rightarrow> game" where
  "generateLoop z s =
     (if z > - trackLength s + 15 then
        (let s1 = generateRow z s;
             (r, s2) = Math_random s1
         in generateLoop (z - (r * 10 + 5)) s2)
      else s)"
  by pat_completeness auto
termination
proof (relation "measure (\<lambda>(z, s). nat \<lceil>(z + trackLength s - 15) / 5\<rceil>)")
  show "wf (measure (\<lambda>(z, s). nat \<lceil>(z + trackLength s - 15) / 5\<rceil>))" by simp
next
  fix z :: real and s s1 :: game and x :: "real \<times> game" and r :: real and s2 :: game
  assume gt: "- trackLength s + 15 < z"
    and s1: "s1 = generateRow z s"
    and x: "x = Math_random s1"
    and rs: "(r, s2) = x"
  have r0: "0 \<le> r" using Math_random_range [of s1] x rs by (metis fst_conv)
  have tl: "trackLength s2 = trackLength s"
    using trackLength_Math_random [of s1] x rs s1 by (metis snd_conv trackLength_generateRow)
  let ?a = "(z + trackLength s - 15) / 5"
  have "(z - (r * 10 + 5) + trackLength s2 - 15) / 5 \<le> ?a - 1"
    using r0 tl by (simp add: field_simps)
  then have "\<lceil>(z - (r * 10 + 5) + trackLength s2 - 15) / 5\<rceil> \<le> \<lceil>?a\<rceil> - 1"
    by (metis ceiling_mono ceiling_diff_one)
  moreover have "0 < \<lceil>?a\<rceil>" using gt by (simp add: ceiling_less_iff)
  ultimately have "nat \<lceil>(z - (r * 10 + 5) + trackLength s2 - 15) / 5\<rceil> < nat \<lceil>?a\<rceil>"
    by linarith
  then show "((z - (r * 10 + 5), s2), (z, s)) \<in> measure (\<lambda>(z, s). nat \<lceil>(z + trackLength s - 15) / 5\<rceil>)"
    by simp
qed

declare generateLoop.simps [simp del]

definition generateObstaclesAndCoins :: "game \<Rightarrow> game" where
  "generateObstaclesAndCoins s = generateLoop (- 15) (s\<lparr>obstacles := [], coins := []\<rparr>)"

subsection \<open>Input and the two animations\<close>

text \<open>
  \<^verbatim>\<open>animateLaneChange\<close>, one call of the closure: the captured \<^verbatim>\<open>progress\<close> grows by
  \<open>0.1\<close>; below \<open>1\<close> the player is moved along the line and the closure is queued for the
  next animation frame, otherwise the player is put on the target.
\<close>

definition animateLaneChange :: "real \<Rightarrow> real \<Rightarrow> real \<Rightarrow> game \<Rightarrow> game" where
  "animateLaneChange startX targetX progress s =
     (let progress' = progress + 1 / 10 in
      if progress' < 1 then
        s\<lparr>player := (player s)\<lparr>px := startX + (targetX - startX) * progress'\<rparr>,
          frameCallbacks := frameCallbacks s @ [AnimateLaneChange startX targetX progress']\<rparr>
      else
        s\<lparr>player := (player s)\<lparr>px := targetX\<rparr>\<rparr>)"

text \<open>
  \<^verbatim>\<open>moveLanes(direction)\<close>. The new lane is clamped to \<open>0..2\<close>, so \<open>lanes\<close> is read in
  range. The first step of the animation runs inside the call.
\<close>

definition moveLanes :: "int \<Rightarrow> game \<Rightarrow> game" where
  "moveLanes direction s =
     (let newLane = max 0 (min 2 (playerLane s + direction)) in
      if newLane \<noteq> playerLane s then
        (let s1 = s\<lparr>playerLane := newLane\<rparr>;
             targetX = lanes ! nat (playerLane s1);
             startX = px (player s1)
         in animateLaneChange startX targetX 0 s1)
      else s)"

text \<open>
  \<^verbatim>\<open>animateJump\<close>, one call of the closure: \<^verbatim>\<open>jumpProgress\<close> grows by \<open>0.05\<close>, the
  player is put on the arc, and the closure is queued again while the progress is below
  \<open>1\<close>; otherwise the player is put back at \<^verbatim>\<open>initialY\<close> and the flag is cleared.
\<close>

definition animateJump :: "real \<Rightarrow> real \<Rightarrow> game \<Rightarrow> game" where
  "animateJump initialY jumpProgress s =
     (let jumpProgress' = jumpProgress + 5 / 100;
          height = 2 * sin (jumpProgress' * pi);
          s1 = s\<lparr>player := (player s)\<lparr>py := initialY + height\<rparr>\<rparr>
      in if jumpProgress' < 1 then
           s1\<lparr>frameCallbacks := frameCallbacks s1 @ [AnimateJump initialY jumpProgress']\<rparr>
         else
           s1\<lparr>player := (player s1)\<lparr>py := initialY\<rparr>, isJumping := False\<rparr>)"

definition jump :: "game \<Rightarrow> game" where
  "jump s =
     (if isJumping s then s
      else (let s1 = s\<lparr>isJumping := True\<rparr> in animateJump (py (player s1)) 0 s1))"

text \<open>
  One animation frame of the browser: the closures queued by
  \<^verbatim>\<open>requestAnimationFrame\<close> are taken off the queue and run in the order they were
  queued; what they queue runs in the next frame.
\<close>

fun runCallback :: "callback \<Rightarrow> game \<Rightarrow> game" where
  "runCallback (AnimateLaneChange startX targetX progress) s = animateLaneChange startX targetX progress s"
| "runCallback (AnimateJump initialY jumpProgress) s = animateJump initialY jumpProgress s"

definition animationFrame :: "game \<Rightarrow> game" where
  "animationFrame s = fold runCallback (frameCallbacks s) (s\<lparr>frameCallbacks := []\<rparr>)"

text \<open>\<^verbatim>\<open>handleKeyDown(event)\<close>, on \<^verbatim>\<open>event.key\<close>.\<close>

definition handleKeyDown :: "string \<Rightarrow> game \<Rightarrow> game" where
  "handleKeyDown key s =
     (if \<not> isGameActive (gameState s) \<or> isGameOver (gameState s) then s
      else if key = ''ArrowLeft'' \<or> key = ''a'' \<or> key = ''A'' then moveLanes (- 1) s
      else if key = ''ArrowRight'' \<or> key = ''d'' \<or> key = ''D'' then moveLanes 1 s
      else if key = ''ArrowUp'' \<or> key = ''w'' \<or> key = ''W'' \<or> key = '' '' then jump s
      else s)"

subsection \<open>Collision, score and the run's phase\<close>

text \<open>
  \<^verbatim>\<open>isPlayerColliding(object)\<close>: the player's box is \<open>0.7\<close> wide, \<open>0.5\<close> deep and
  \<open>1.5\<close> high, or \<open>0\<close> high while jumping; the object's is \<open>0.8\<close>, \<open>0.8\<close> and \<open>1\<close>.
\<close>

definition isPlayerColliding :: "game \<Rightarrow> object3d \<Rightarrow> bool" where
  "isPlayerColliding s object =
     (let height = (if isJumping s then 0 else 15 / 10);
          xCollision = (\<bar>px (player s) - px object\<bar> < (7 / 10 + 8 / 10) / 2);
          zCollision = (\<bar>pz (player s) - pz object\<bar> < (5 / 10 + 8 / 10) / 2);
          yCollision = (\<bar>py (player s) - py object\<bar> < (height + 1) / 2)
      in xCollision \<and> zCollision \<and> yCollision)"

definition increaseScore :: "real \<Rightarrow> game \<Rightarrow> game" where
  "increaseScore amount s = s\<lparr>score := score s + amount\<rparr>"

definition gameOver :: "game \<Rightarrow> game" where
  "gameOver s = s\<lparr>gameState := \<lparr>isGameOver = True, isGameActive = False\<rparr>\<rparr>"

definition startGame :: "game \<Rightarrow> game" where
  "startGame s = s\<lparr>score := 0, gameState := \<lparr>isGameOver = False, isGameActive = True\<rparr>\<rparr>"

definition restartGame :: "game \<Rightarrow> game" where
  "restartGame s =
     (let s1 = s\<lparr>score := 0, speed := 2 / 10, trackPosition := 0, playerLane := 1,
                 isJumping := False\<rparr>;
          s2 = s1\<lparr>player := (player s1)\<lparr>px := lanes ! nat (playerLane s1), py := 0, pz := 0\<rparr>\<rparr>;
          s3 = generateObstaclesAndCoins s2
      in s3\<lparr>gameState := \<lparr>isGameOver = False, isGameActive = True\<rparr>\<rparr>)"

subsection \<open>The frame update\<close>

text \<open>
  The \<^verbatim>\<open>forEach\<close> over the obstacles: each one is moved by the speed and tested
  against the player.
\<close>

definition moveObstacle :: "real \<Rightarrow> object3d \<Rightarrow> object3d" where
  "moveObstacle v obstacle = obstacle\<lparr>pz := pz obstacle + v\<rparr>"

fun obstacleLoop :: "object3d list \<Rightarrow> game \<Rightarrow> object3d list \<times> game" where
  "obstacleLoop [] s = ([], s)"
| "obstacleLoop (obstacle # rest) s =
     (let obstacle' = moveObstacle (speed s) obstacle;
          s1 = (if isPlayerColliding s obstacle' then gameOver s else s);
          (rest', s2) = obstacleLoop rest s1
      in (obstacle' # rest', s2))"

text \<open>
  The loop over the coins runs from the last index down to \<open>0\<close>: the coin at \<open>i\<close> is
  moved and spun, and a coin the player touches is spliced out and scores \<open>10\<close>.
  \<open>coinLoop n\<close> is the loop with \<open>n\<close> indices left, the next one being \<open>n - 1\<close>.
\<close>

definition moveCoin :: "real \<Rightarrow> object3d \<Rightarrow> object3d" where
  "moveCoin v coin = coin\<lparr>pz := pz coin + v, rotz := rotz coin + 5 / 100\<rparr>"

definition coinStep :: "nat \<Rightarrow> game \<Rightarrow> game" where
  "coinStep i s =
     (let coin = moveCoin (speed s) (coins s ! i);
          s1 = s\<lparr>coins := (coins s)[i := coin]\<rparr>
      in if isPlayerColliding s1 coin then
           increaseScore 10 (s1\<lparr>coins := take i (coins s1) @ drop (Suc i) (coins s1)\<rparr>)
         else s1)"

fun coinLoop :: "nat \<Rightarrow> game \<Rightarrow> game" where
  "coinLoop 0 s = s"
| "coinLoop (Suc i) s = coinLoop i (coinStep i s)"

definition updateGame :: "game \<Rightarrow> game" where
  "updateGame s =
     (if \<not> isGameActive (gameState s) \<or> isGameOver (gameState s) then s
      else
        (let s1 = s\<lparr>speed := speed s + 5 / 100000\<rparr>;
             s2 = s1\<lparr>trackPosition := trackPosition s1 + speed s1\<rparr>;
             s3 = (if trackPosition s2 \<ge> trackLength s2 - 20 then
                     generateObstaclesAndCoins (s2\<lparr>trackPosition := 0\<rparr>)
                   else s2);
             (obstacles', s4) = obstacleLoop (obstacles s3) s3;
             s5 = s4\<lparr>obstacles := obstacles'\<rparr>;
             s6 = coinLoop (length (coins s5)) s5
         in increaseScore (1 / 10) s6))"

subsection \<open>Construction\<close>

text \<open>
  The state after the constructor, for a random source \<open>rs\<close>, is the field
  initialisers (the player group does not exist yet; its place is held by an object at
  the origin). \<^verbatim>\<open>initGame\<close> then runs \<^verbatim>\<open>createTrack\<close>, which generates the first
  lap, and \<^verbatim>\<open>createPlayer\<close>, which puts the player on the centre lane.
\<close>

definition constructed :: "(nat \<Rightarrow> rand) \<Rightarrow> game" where
  "constructed rs =
     \<lparr>player = \<lparr>shape = Player, px = 0, py = 0, pz = 0, rotx = 0, rotz = 0\<rparr>,
      obstacles = [], coins = [], score = 0,
      gameState = \<lparr>isGameOver = False, isGameActive = False\<rparr>,
      playerLane = 1, isJumping = False, speed = 2 / 10, trackLength = 500,
      trackPosition = 0, frameCallbacks = [], randoms = rs, randomCount = 0\<rparr>"

definition initGame :: "(nat \<Rightarrow> rand) \<Rightarrow> game" where
  "initGame rs =
     (let s1 = generateObstaclesAndCoins (constructed rs)
      in s1\<lparr>player := (player s1)\<lparr>px := lanes ! nat (playerLane s1), py := 0, pz := 0\<rparr>\<rparr>)"

subsection \<open>Auxiliary notions for the proofs\<close>

text \<open>
  \<open>layoutOnly s t\<close>: the states \<open>s\<close> and \<open>t\<close> differ at most in the obstacles, the coins
  and the count of random numbers drawn. It holds between the state before and after the
  layout generator.
\<close>

definition layoutOnly :: "game \<Rightarrow> game \<Rightarrow> bool" where
  "layoutOnly s t =
     (t\<lparr>obstacles := [], coins := [], randomCount := 0\<rparr> =
      s\<lparr>obstacles := [], coins := [], randomCount := 0\<rparr>)"

text \<open>
  A state to evaluate on: the game before the start, with one rock ahead on the centre
  lane and one coin on the left lane.
\<close>

definition exampleGame :: game where
  "exampleGame =
     \<lparr>player = \<lparr>shape = Player, px = 0, py = 0, pz = 0, rotx = 0, rotz = 0\<rparr>,
      obstacles = [\<lparr>shape = Rock, px = 0, py = 4 / 10, pz = - 15, rotx = 0, rotz = 0\<rparr>],
      coins = [\<lparr>shape = Coin, px = - 2, py = 8 / 10, pz = - 16, rotx = pi / 2, rotz = 0\<rparr>],
      score = 0,
      gameState = \<lparr>isGameOver = False, isGameActive = False\<rparr>,
      playerLane = 1, isJumping = False, speed = 2 / 10, trackLength = 500,
      trackPosition = 0, frameCallbacks = [], randoms = (\<lambda>n. Abs_rand (1 / 2)),
      randomCount = 6\<rparr>"

text \<open>A rock on the centre lane at depth \<open>z\<close>, as \<^verbatim>\<open>createObstacle\<close> builds it.\<close>

definition rockAt :: "real \<Rightarrow> object3d" where
  "rockAt z = \<lparr>shape = Rock, px = 0, py = 4 / 10, pz = z, rotx = 0, rotz = 0\<rparr>"

text \<open>A random source whose first number is \<open>0\<close> and whose later numbers are \<open>0.5\<close>.\<close>

definition skewedRandoms :: "nat \<Rightarrow> rand" where
  "skewedRandoms n = (if n = 0 then Abs_rand 0 else Abs_rand (1 / 2))"

text \<open>
  Two obstacles of consecutive rows: the loop of the generator lowers the depth by
  \<open>Math.random() * 10 + 5\<close>, at least \<open>5\<close> and less than \<open>15\<close>.
\<close>

definition nextRow :: "object3d \<Rightarrow> object3d \<Rightarrow> bool" where
  "nextRow a b = (pz a - 15 < pz b \<and> pz b \<le> pz a - 5)"

text \<open>The closures of the jump animation among the queued ones.\<close>

fun isAnimateJump :: "callback \<Rightarrow> bool" where
  "isAnimateJump (AnimateJump initialY jumpProgress) = True"
| "isAnimateJump (AnimateLaneChange startX targetX progress) = False"

text \<open>
  What can happen between a jump trigger and the end of its animation, with no new trigger
  and no restart: animation frames, frame updates and lane changes, in any order.
\<close>

datatype event = Frame | Tick | Lane int

fun applyEvent :: "event \<Rightarrow> game \<Rightarrow> game" where
  "applyEvent Frame s = animationFrame s"
| "applyEvent Tick s = updateGame s"
| "applyEvent (Lane direction) s = moveLanes direction s"

text \<open>
  The invariant of a jump in flight. \<open>laneOnly\<close>: no closure of a jump among the queued
  ones. \<open>jumpProgressAt c\<close>: the progress the jump's closure holds after \<open>c\<close> frames.
  \<open>jumpInFlight y0 c t\<close>: \<open>c\<close> frames after a jump from height \<open>y0\<close>, the state \<open>t\<close>
  either has the flag set and the jump's closure queued, among closures of lane changes
  only, or (from the 19th frame on) has the flag cleared and the player back at \<open>y0\<close>.
\<close>

definition laneOnly :: "callback list \<Rightarrow> bool" where
  "laneOnly cbs = list_all (\<lambda>cb. \<not> isAnimateJump cb) cbs"

definition jumpProgressAt :: "nat \<Rightarrow> real" where
  "jumpProgressAt c = real (Suc c) / 20"

definition jumpQueued :: "real \<Rightarrow> real \<Rightarrow> callback list \<Rightarrow> bool" where
  "jumpQueued y0 p cbs = (\<exists>q r. cbs = q @ [AnimateJump y0 p] @ r \<and> laneOnly q \<and> laneOnly r)"

definition jumpInFlight :: "real \<Rightarrow> nat \<Rightarrow> game \<Rightarrow> bool" where
  "jumpInFlight y0 c t =
     (if c < 19 then isJumping t \<and> jumpQueued y0 (jumpProgressAt c) (frameCallbacks t)
      else \<not> isJumping t \<and> py (player t) = y0 \<and> laneOnly (frameCallbacks t))"

section \<open>What the layout generator leaves alone\<close>

lemma layoutOnly_refl [simp]: "layoutOnly s s"
  by (simp add: layoutOnly_def)

lemma layoutOnly_trans: "layoutOnly s t \<Longrightarrow> layoutOnly t u \<Longrightarrow> layoutOnly s u"
  by (simp add: layoutOnly_def)

lemma layoutOnly_fields:
  assumes "layoutOnly s t"
  shows "player t = player s" "score t = score s" "gameState t = gameState s"
    "playerLane t = playerLane s" "isJumping t = isJumping s" "speed t = speed s"
    "trackLength t = trackLength s" "trackPosition t = trackPosition s"
    "frameCallbacks t = frameCallbacks s" "randoms t = randoms s"
proof -
  let ?e = "\<lambda>u :: game. u\<lparr>obstacles := [], coins := [], randomCount := 0\<rparr>"
  have e: "?e t = ?e s" using assms by (simp add: layoutOnly_def)
  show "player t = player s" using arg_cong [OF e, of player] by simp
  show "score t = score s" using arg_cong [OF e, of score] by simp
  show "gameState t = gameState s" using arg_cong [OF e, of gameState] by simp
  show "playerLane t = playerLane s" using arg_cong [OF e, of playerLane] by simp
  show "isJumping t = isJumping s" using arg_cong [OF e, of isJumping] by simp
  show "speed t = speed s" using arg_cong [OF e, of speed] by simp
  show "trackLength t = trackLength s" using arg_cong [OF e, of trackLength] by simp
  show "trackPosition t = trackPosition s" using arg_cong [OF e, of trackPosition] by simp
  show "frameCallbacks t = frameCallbacks s" using arg_cong [OF e, of frameCallbacks] by simp
  show "randoms t = randoms s" using arg_cong [OF e, of randoms] by simp
qed

lemma layoutOnly_Math_random: "layoutOnly s (snd (Math_random s))"
  by (simp add: layoutOnly_def Math_random_def)

lemma layoutOnly_generateRow: "layoutOnly s (generateRow z s)"
  by (simp add: layoutOnly_def generateRow_def createObstacle_def coinInLane_def createCoin_def
      Math_random_def Let_def)

lemma layoutOnly_generateLoop: "layoutOnly s (generateLoop z s)"
proof (induction z s rule: generateLoop.induct)
  case (1 z s)
  show ?case
  proof (cases "z > - trackLength s + 15")
    case True
    obtain r s2 where rs: "Math_random (generateRow z s) = (r, s2)"
      by (cases "Math_random (generateRow z s)")
    have "layoutOnly s2 (generateLoop (z - (r * 10 + 5)) s2)"
      using "1.IH" [OF True refl rs [symmetric] refl] .
    moreover have "layoutOnly s s2"
      using layoutOnly_trans [OF layoutOnly_generateRow layoutOnly_Math_random, of s z] rs
      by simp
    ultimately have "layoutOnly s (generateLoop (z - (r * 10 + 5)) s2)"
      by (rule layoutOnly_trans [rotated])
    then show ?thesis
      using True rs by (subst generateLoop.simps) simp
  next
    case False
    then show ?thesis by (subst generateLoop.simps) simp
  qed
qed

lemma layoutOnly_generateObstaclesAndCoins: "layoutOnly s (generateObstaclesAndCoins s)"
proof -
  have "layoutOnly s (s\<lparr>obstacles := [], coins := []\<rparr>)" by (simp add: layoutOnly_def)
  then show ?thesis
    unfolding generateObstaclesAndCoins_def
    by (rule layoutOnly_trans) (rule layoutOnly_generateLoop)
qed

section \<open>The loops of the frame update in closed form\<close>

lemma isPlayerColliding_cong:
  "player t = player s \<Longrightarrow> isJumping t = isJumping s \<Longrightarrow>
   isPlayerColliding t = isPlayerColliding s"
  by (rule ext) (simp add: isPlayerColliding_def)

lemma obstacleLoop_eq:
  "obstacleLoop os s =
     (map (moveObstacle (speed s)) os,
      if \<exists>obstacle \<in> set os. isPlayerColliding s (moveObstacle (speed s) obstacle)
      then gameOver s else s)"
proof (induction os arbitrary: s)
  case Nil
  show ?case by simp
next
  case (Cons a os)
  have g: "isPlayerColliding (gameOver s) = isPlayerColliding s"
    by (rule isPlayerColliding_cong) (simp_all add: gameOver_def)
  have gg: "gameOver (gameOver s) = gameOver s" "speed (gameOver s) = speed s"
    by (simp_all add: gameOver_def)
  show ?case
    by (simp add: Cons.IH Let_def g gg)
qed

lemma coinStep_eq:
  assumes "i < length (coins s)"
  shows "coinStep i s =
     (let coin = moveCoin (speed s) (coins s ! i) in
      if isPlayerColliding s coin then
        s\<lparr>coins := take i (coins s) @ drop (Suc i) (coins s), score := score s + 10\<rparr>
      else s\<lparr>coins := take i (coins s) @ coin # drop (Suc i) (coins s)\<rparr>)"
proof -
  have c: "isPlayerColliding (s\<lparr>coins := cs\<rparr>) = isPlayerColliding s" for cs
    by (rule isPlayerColliding_cong) simp_all
  show ?thesis
    using assms
    by (simp add: coinStep_def Let_def c increaseScore_def upd_conv_take_nth_drop)
qed

lemma coinLoop_eq:
  "n \<le> length (coins s) \<Longrightarrow>
   coinLoop n s =
     s\<lparr>coins := filter (\<lambda>c. \<not> isPlayerColliding s c) (map (moveCoin (speed s)) (take n (coins s)))
                 @ drop n (coins s),
       score := score s
                 + 10 * real (length (filter (isPlayerColliding s)
                                (map (moveCoin (speed s)) (take n (coins s)))))\<rparr>"
proof (induction n arbitrary: s)
  case 0
  show ?case by simp
next
  case (Suc n)
  let ?coin = "moveCoin (speed s) (coins s ! n)"
  let ?t = "coinStep n s"
  have lt: "n < length (coins s)" using Suc.prems by simp
  have t: "?t = (if isPlayerColliding s ?coin then
        s\<lparr>coins := take n (coins s) @ drop (Suc n) (coins s), score := score s + 10\<rparr>
      else s\<lparr>coins := take n (coins s) @ ?coin # drop (Suc n) (coins s)\<rparr>)"
    using coinStep_eq [OF lt] by (simp add: Let_def)
  have c: "isPlayerColliding ?t = isPlayerColliding s"
    by (rule isPlayerColliding_cong) (simp_all add: t)
  have sp: "speed ?t = speed s" by (simp add: t)
  have len: "n \<le> length (coins ?t)" using lt by (auto simp: t)
  have tk: "take n (coins ?t) = take n (coins s)" using lt by (simp add: t)
  have dr: "drop n (coins ?t) =
      (if isPlayerColliding s ?coin then [] else [?coin]) @ drop (Suc n) (coins s)"
    using lt by (simp add: t)
  have sc: "score ?t = score s + (if isPlayerColliding s ?coin then 10 else 0)"
    by (simp add: t)
  have "coinLoop (Suc n) s = coinLoop n ?t" by simp
  also have "\<dots> = ?t\<lparr>coins := filter (\<lambda>c. \<not> isPlayerColliding s c)
                                (map (moveCoin (speed s)) (take n (coins s)))
                 @ (if isPlayerColliding s ?coin then [] else [?coin]) @ drop (Suc n) (coins s),
       score := score s + (if isPlayerColliding s ?coin then 10 else 0)
                 + 10 * real (length (filter (isPlayerColliding s)
                                (map (moveCoin (speed s)) (take n (coins s)))))\<rparr>"
    by (simp only: Suc.IH [OF len] c sp tk dr sc)
  also have "\<dots> = s\<lparr>coins := filter (\<lambda>c. \<not> isPlayerColliding s c)
                          (map (moveCoin (speed s)) (take (Suc n) (coins s)))
                 @ drop (Suc n) (coins s),
       score := score s
                 + 10 * real (length (filter (isPlayerColliding s)
                                (map (moveCoin (speed s)) (take (Suc n) (coins s)))))\<rparr>"
    using lt by (simp add: t take_Suc_conv_app_nth)
  finally show ?case .
qed

lemma coinLoop_all:
  "coinLoop (length (coins s)) s =
     s\<lparr>coins := filter (\<lambda>c. \<not> isPlayerColliding s c) (map (moveCoin (speed s)) (coins s)),
       score := score s
                 + 10 * real (length (filter (isPlayerColliding s)
                                (map (moveCoin (speed s)) (coins s))))\<rparr>"
  using coinLoop_eq [of "length (coins s)" s] by simp

lemma updateGame_active:
  assumes act: "isGameActive (gameState s)" "\<not> isGameOver (gameState s)"
    and v: "v = speed s + 5 / 100000"
    and s3: "s3 = (if trackLength s - 20 \<le> trackPosition s + v
                   then generateObstaclesAndCoins (s\<lparr>speed := v, trackPosition := 0\<rparr>)
                   else s\<lparr>speed := v, trackPosition := trackPosition s + v\<rparr>)"
  shows "updateGame s =
     s3\<lparr>obstacles := map (moveObstacle v) (obstacles s3),
        gameState := (if \<exists>obstacle \<in> set (obstacles s3). isPlayerColliding s (moveObstacle v obstacle)
                      then \<lparr>isGameOver = True, isGameActive = False\<rparr> else gameState s),
        coins := filter (\<lambda>c. \<not> isPlayerColliding s c) (map (moveCoin v) (coins s3)),
        score := score s
                 + 10 * real (length (filter (isPlayerColliding s) (map (moveCoin v) (coins s3))))
                 + 1 / 10\<rparr>"
proof -
  have lo: "layoutOnly (s\<lparr>speed := v, trackPosition := 0\<rparr>) s3
            \<or> s3 = s\<lparr>speed := v, trackPosition := trackPosition s + v\<rparr>"
    using layoutOnly_generateObstaclesAndCoins [of "s\<lparr>speed := v, trackPosition := 0\<rparr>"]
    by (simp add: s3)
  have f: "speed s3 = v" "player s3 = player s" "isJumping s3 = isJumping s"
    "score s3 = score s" "gameState s3 = gameState s"
    using lo by (auto dest: layoutOnly_fields)
  have c3: "isPlayerColliding s3 = isPlayerColliding s"
    by (rule isPlayerColliding_cong) (simp_all add: f)
  define s5 where "s5 = (snd (obstacleLoop (obstacles s3) s3))\<lparr>obstacles := fst (obstacleLoop (obstacles s3) s3)\<rparr>"
  have s5: "s5 = s3\<lparr>obstacles := map (moveObstacle v) (obstacles s3),
        gameState := (if \<exists>obstacle \<in> set (obstacles s3). isPlayerColliding s (moveObstacle v obstacle)
                      then \<lparr>isGameOver = True, isGameActive = False\<rparr> else gameState s)\<rparr>"
    by (simp add: s5_def obstacleLoop_eq f c3 gameOver_def)
  have c5: "isPlayerColliding s5 = isPlayerColliding s"
    by (rule isPlayerColliding_cong) (simp_all add: s5 f)
  have f5: "speed s5 = v" "coins s5 = coins s3" "score s5 = score s"
    by (simp_all add: s5 f)
  have u: "updateGame s = increaseScore (1 / 10) (coinLoop (length (coins s5)) s5)"
    using act unfolding updateGame_def s5_def s3 v
    by (simp add: Let_def split_beta add.commute)
  have cl: "coinLoop (length (coins s5)) s5 =
      s5\<lparr>coins := filter (\<lambda>c. \<not> isPlayerColliding s c) (map (moveCoin v) (coins s3)),
         score := score s
                 + 10 * real (length (filter (isPlayerColliding s) (map (moveCoin v) (coins s3))))\<rparr>"
    by (subst coinLoop_all) (simp add: c5 f5)
  show ?thesis
    unfolding u cl increaseScore_def
    by (simp add: s5)
qed

lemma updateGame_score:
  assumes act: "isGameActive (gameState s)" "\<not> isGameOver (gameState s)"
  shows "score s + 1 / 10 \<le> score (updateGame s)"
    "isGameActive (gameState (updateGame s)) \<or> isGameOver (gameState (updateGame s))"
  using act by (simp_all add: updateGame_active [OF act refl refl])

section \<open>The rows of the layout generator\<close>

lemma lane_of_random:
  fixes r :: real
  assumes "0 \<le> r" "r < 1"
  shows "\<lfloor>r * 3\<rfloor> \<in> {0, 1, 2 :: int}"
proof -
  have "0 \<le> \<lfloor>r * 3\<rfloor>" using assms by simp
  moreover have "\<lfloor>r * 3\<rfloor> < 3" using assms by (simp add: floor_less_iff)
  ultimately have "\<lfloor>r * 3\<rfloor> = 0 \<or> \<lfloor>r * 3\<rfloor> = 1 \<or> \<lfloor>r * 3\<rfloor> = 2" by linarith
  then show ?thesis by blast
qed

lemma obstacles_Math_random [simp]: "obstacles (snd (Math_random s)) = obstacles s"
  by (simp add: Math_random_def)

lemma obstacles_coinInLane [simp]: "obstacles (coinInLane l z lane s) = obstacles s"
  by (simp add: coinInLane_def createCoin_def Math_random_def Let_def)

lemma obstacles_generateRow:
  "\<exists>obstacle. obstacles (generateRow z s) = obstacles s @ [obstacle]
      \<and> pz obstacle = z
      \<and> px obstacle = lanes ! nat \<lfloor>Rep_rand (randoms s (randomCount s)) * 3\<rfloor>"
  by (simp add: generateRow_def createObstacle_def Math_random_def Let_def)

lemma coins_coinInLane:
  "\<exists>cs. coins (coinInLane l z lane s) = coins s @ cs
      \<and> (cs = [] \<or> lane \<noteq> l \<and> (\<exists>c. cs = [c] \<and> px c = lanes ! nat lane))"
  by (simp add: coinInLane_def createCoin_def Math_random_def Let_def)

lemma coins_createObstacle [simp]: "coins (createObstacle x z s) = coins s"
  by (simp add: createObstacle_def Math_random_def Let_def)

lemma coins_Math_random [simp]: "coins (snd (Math_random s)) = coins s"
  by (simp add: Math_random_def)

lemma coins_generateRow:
  "\<exists>cs. coins (generateRow z s) = coins s @ cs
      \<and> (\<forall>c \<in> set cs. px c \<in> set lanes
            \<and> px c \<noteq> lanes ! nat \<lfloor>Rep_rand (randoms s (randomCount s)) * 3\<rfloor>)
      \<and> distinct (map px cs)"
proof -
  let ?l = "\<lfloor>Rep_rand (randoms s (randomCount s)) * 3\<rfloor>"
  have l: "?l \<in> {0, 1, 2}"
    using Rep_rand [of "randoms s (randomCount s)"] by (intro lane_of_random) simp_all
  define s2 where "s2 = createObstacle (lanes ! nat ?l) z (snd (Math_random s))"
  define t0 where "t0 = coinInLane ?l z 0 s2"
  define t1 where "t1 = coinInLane ?l z 1 t0"
  define t2 where "t2 = coinInLane ?l z 2 t1"
  have g: "generateRow z s = t2"
    by (simp add: generateRow_def t2_def t1_def t0_def s2_def Let_def split_beta Math_random_def)
  have c2: "coins s2 = coins s" by (simp add: s2_def)
  obtain a where a: "coins t0 = coins s @ a" "a = [] \<or> 0 \<noteq> ?l \<and> (\<exists>c. a = [c] \<and> px c = lanes ! nat 0)"
    using coins_coinInLane [of ?l z 0 s2] c2 unfolding t0_def by auto
  obtain b where b: "coins t1 = coins t0 @ b" "b = [] \<or> 1 \<noteq> ?l \<and> (\<exists>c. b = [c] \<and> px c = lanes ! nat 1)"
    using coins_coinInLane [of ?l z 1 t0] unfolding t1_def by auto
  obtain c where c: "coins t2 = coins t1 @ c" "c = [] \<or> 2 \<noteq> ?l \<and> (\<exists>d. c = [d] \<and> px d = lanes ! nat 2)"
    using coins_coinInLane [of ?l z 2 t1] unfolding t2_def by auto
  have e: "coins (generateRow z s) = coins s @ (a @ b @ c)"
    by (simp add: g a b c)
  have p: "\<forall>x \<in> set (a @ b @ c). px x \<in> set lanes \<and> px x \<noteq> lanes ! nat ?l"
    using a(2) b(2) c(2) l by (auto simp: lanes_def)
  have d: "distinct (map px (a @ b @ c))"
    using a(2) b(2) c(2) by (auto simp: lanes_def)
  show ?thesis using e p d by blast
qed

lemma generateLoop_rows:
  assumes "sorted_wrt (\<lambda>a b. pz b < pz a) (obstacles s)"
    and "\<forall>obstacle \<in> set (obstacles s). z < pz obstacle \<and> px obstacle \<in> set lanes"
  shows "sorted_wrt (\<lambda>a b. pz b < pz a) (obstacles (generateLoop z s))
    \<and> (\<forall>obstacle \<in> set (obstacles (generateLoop z s)). px obstacle \<in> set lanes)"
  using assms
proof (induction z s rule: generateLoop.induct)
  case (1 z s)
  show ?case
  proof (cases "z > - trackLength s + 15")
    case True
    obtain r s2 where rs: "Math_random (generateRow z s) = (r, s2)"
      by (cases "Math_random (generateRow z s)")
    have r0: "0 \<le> r" using Math_random_range [of "generateRow z s"] rs by simp
    obtain obstacle where o: "obstacles (generateRow z s) = obstacles s @ [obstacle]"
      "pz obstacle = z" "px obstacle = lanes ! nat \<lfloor>Rep_rand (randoms s (randomCount s)) * 3\<rfloor>"
      using obstacles_generateRow [of z s] by blast
    have "\<lfloor>Rep_rand (randoms s (randomCount s)) * 3\<rfloor> \<in> {0, 1, 2}"
      using Rep_rand [of "randoms s (randomCount s)"] by (intro lane_of_random) simp_all
    then have ol: "px obstacle \<in> set lanes" by (auto simp: o(3) lanes_def)
    have os2: "obstacles s2 = obstacles s @ [obstacle]"
      using obstacles_Math_random [of "generateRow z s"] rs o(1) by simp
    have srt: "sorted_wrt (\<lambda>a b. pz b < pz a) (obstacles s2)"
      using "1.prems" o(2) by (simp add: os2 sorted_wrt_append)
    have bnd: "\<forall>x \<in> set (obstacles s2). z - (r * 10 + 5) < pz x \<and> px x \<in> set lanes"
      using "1.prems"(2) o(2) ol r0 by (auto simp: os2 intro: less_trans)
    have "sorted_wrt (\<lambda>a b. pz b < pz a) (obstacles (generateLoop (z - (r * 10 + 5)) s2))
      \<and> (\<forall>x \<in> set (obstacles (generateLoop (z - (r * 10 + 5)) s2)). px x \<in> set lanes)"
      using "1.IH" [OF True refl rs [symmetric] refl srt bnd] .
    then show ?thesis
      using True rs by (subst (1 2) generateLoop.simps) simp
  next
    case False
    then show ?thesis using "1.prems" by (subst (1 2) generateLoop.simps) simp
  qed
qed

lemma randomCount_coinInLane: "randomCount s \<le> randomCount (coinInLane l z lane s)"
  by (simp add: coinInLane_def createCoin_def Math_random_def Let_def)

lemma randomCount_generateRow: "randomCount s < randomCount (generateRow z s)"
proof -
  let ?l = "\<lfloor>Rep_rand (randoms s (randomCount s)) * 3\<rfloor>"
  define s2 where "s2 = createObstacle (lanes ! nat ?l) z (snd (Math_random s))"
  have g: "generateRow z s = coinInLane ?l z 2 (coinInLane ?l z 1 (coinInLane ?l z 0 s2))"
    by (simp add: generateRow_def s2_def Let_def split_beta Math_random_def)
  have "randomCount s < randomCount s2"
    by (simp add: s2_def createObstacle_def Math_random_def Let_def)
  also have "\<dots> \<le> randomCount (coinInLane ?l z 0 s2)" by (rule randomCount_coinInLane)
  also have "\<dots> \<le> randomCount (coinInLane ?l z 1 (coinInLane ?l z 0 s2))"
    by (rule randomCount_coinInLane)
  also have "\<dots> \<le> randomCount (coinInLane ?l z 2 (coinInLane ?l z 1 (coinInLane ?l z 0 s2)))"
    by (rule randomCount_coinInLane)
  finally show ?thesis by (simp add: g)
qed

lemma generateLoop_grows:
  "(\<exists>xs. obstacles (generateLoop z s) = obstacles s @ xs)
   \<and> randomCount s \<le> randomCount (generateLoop z s)"
proof (induction z s rule: generateLoop.induct)
  case (1 z s)
  show ?case
  proof (cases "z > - trackLength s + 15")
    case True
    obtain r s2 where rs: "Math_random (generateRow z s) = (r, s2)"
      by (cases "Math_random (generateRow z s)")
    obtain obstacle where o: "obstacles (generateRow z s) = obstacles s @ [obstacle]"
      using obstacles_generateRow [of z s] by blast
    have os2: "obstacles s2 = obstacles s @ [obstacle]"
      using obstacles_Math_random [of "generateRow z s"] rs o by simp
    have rc: "randomCount s \<le> randomCount s2"
      using randomCount_generateRow [of s z] rs by (auto simp: Math_random_def)
    obtain xs where xs: "obstacles (generateLoop (z - (r * 10 + 5)) s2) = obstacles s2 @ xs"
      and n: "randomCount s2 \<le> randomCount (generateLoop (z - (r * 10 + 5)) s2)"
      using "1.IH" [OF True refl rs [symmetric] refl] by blast
    have e: "generateLoop z s = generateLoop (z - (r * 10 + 5)) s2"
      using True rs by (subst generateLoop.simps) simp
    show ?thesis
      unfolding e using xs n rc by (simp add: os2)
  next
    case False
    then show ?thesis by (subst (1 2) generateLoop.simps) simp
  qed
qed

lemma generate_first_obstacle:
  assumes "30 < trackLength s"
  shows "\<exists>obstacle xs. obstacles (generateObstaclesAndCoins s) = obstacle # xs
           \<and> px obstacle = lanes ! nat \<lfloor>Rep_rand (randoms s (randomCount s)) * 3\<rfloor>
           \<and> randomCount s < randomCount (generateObstaclesAndCoins s)"
proof -
  let ?s0 = "s\<lparr>obstacles := [], coins := []\<rparr>"
  obtain r s2 where rs: "Math_random (generateRow (- 15) ?s0) = (r, s2)"
    by (cases "Math_random (generateRow (- 15) ?s0)")
  obtain obstacle where o: "obstacles (generateRow (- 15) ?s0) = [obstacle]"
    "px obstacle = lanes ! nat \<lfloor>Rep_rand (randoms s (randomCount s)) * 3\<rfloor>"
    using obstacles_generateRow [of "- 15" ?s0] by auto
  have os2: "obstacles s2 = [obstacle]"
    using obstacles_Math_random [of "generateRow (- 15) ?s0"] rs o by simp
  have rc: "randomCount s < randomCount s2"
    using randomCount_generateRow [of ?s0 "- 15"] rs by (auto simp: Math_random_def)
  have e: "generateObstaclesAndCoins s = generateLoop (- 15 - (r * 10 + 5)) s2"
    unfolding generateObstaclesAndCoins_def
    using assms rs by (subst generateLoop.simps) simp
  obtain xs where xs: "obstacles (generateLoop (- 15 - (r * 10 + 5)) s2) = obstacles s2 @ xs"
    and n: "randomCount s2 \<le> randomCount (generateLoop (- 15 - (r * 10 + 5)) s2)"
    using generateLoop_grows [of "- 15 - (r * 10 + 5)" s2] by blast
  show ?thesis
    unfolding e using xs n rc o(2) by (simp add: os2)
qed

lemma generateLoop_lap:
  assumes "successively nextRow (obstacles s)"
    and "obstacles s \<noteq> [] \<longrightarrow>
           pz (last (obstacles s)) - 15 < z \<and> z \<le> pz (last (obstacles s)) - 5"
    and "\<forall>obstacle \<in> set (obstacles s). - trackLength s + 15 < pz obstacle"
    and "\<forall>c \<in> set (coins s). px c \<in> set lanes"
  shows "successively nextRow (obstacles (generateLoop z s))
    \<and> (obstacles (generateLoop z s) \<noteq> [] \<longrightarrow>
          pz (last (obstacles (generateLoop z s))) - 15 < min z (- trackLength s + 15))
    \<and> (\<forall>obstacle \<in> set (obstacles (generateLoop z s)). - trackLength s + 15 < pz obstacle)
    \<and> (\<forall>c \<in> set (coins (generateLoop z s)). px c \<in> set lanes)"
  using assms
proof (induction z s rule: generateLoop.induct)
  case (1 z s)
  show ?case
  proof (cases "z > - trackLength s + 15")
    case True
    obtain r s2 where rs: "Math_random (generateRow z s) = (r, s2)"
      by (cases "Math_random (generateRow z s)")
    have r01: "0 \<le> r" "r < 1" using Math_random_range [of "generateRow z s"] rs by simp_all
    obtain obstacle where o: "obstacles (generateRow z s) = obstacles s @ [obstacle]"
      "pz obstacle = z"
      using obstacles_generateRow [of z s] by blast
    obtain cs where cs: "coins (generateRow z s) = coins s @ cs"
      "\<forall>c \<in> set cs. px c \<in> set lanes"
      using coins_generateRow [of z s] by blast
    have os2: "obstacles s2 = obstacles s @ [obstacle]"
      using obstacles_Math_random [of "generateRow z s"] rs o(1) by simp
    have cs2: "coins s2 = coins s @ cs"
      using coins_Math_random [of "generateRow z s"] rs cs(1) by simp
    have tl: "trackLength s2 = trackLength s"
      using trackLength_Math_random [of "generateRow z s"] rs by simp
    have a1: "successively nextRow (obstacles s2)"
      using "1.prems"(1,2) o(2)
      by (auto simp: os2 successively_append_iff nextRow_def)
    have a2: "obstacles s2 \<noteq> [] \<longrightarrow>
           pz (last (obstacles s2)) - 15 < z - (r * 10 + 5)
           \<and> z - (r * 10 + 5) \<le> pz (last (obstacles s2)) - 5"
      using r01 by (simp add: os2 o(2))
    have a3: "\<forall>x \<in> set (obstacles s2). - trackLength s2 + 15 < pz x"
      using "1.prems"(3) True by (auto simp: os2 o(2) tl)
    have a4: "\<forall>c \<in> set (coins s2). px c \<in> set lanes"
      using "1.prems"(4) cs(2) by (auto simp: cs2)
    note ih = "1.IH" [OF True refl rs [symmetric] refl a1 a2 a3 a4]
    have e: "generateLoop z s = generateLoop (z - (r * 10 + 5)) s2"
      using True rs by (subst generateLoop.simps) simp
    have m: "min (z - (r * 10 + 5)) (- trackLength s + 15) \<le> min z (- trackLength s + 15)"
      using r01 by simp
    show ?thesis
      unfolding e using ih m by (auto simp: tl)
  next
    case False
    have e: "generateLoop z s = s" using False by (subst generateLoop.simps) simp
    show ?thesis
      unfolding e using "1.prems" False by auto
  qed
qed

lemma generated_lap:
  assumes "30 < trackLength s"
  shows "\<exists>obstacle xs. obstacles (generateObstaclesAndCoins s) = obstacle # xs
          \<and> pz obstacle = - 15 \<and> px obstacle \<in> set lanes"
    "successively nextRow (obstacles (generateObstaclesAndCoins s))"
    "pz (last (obstacles (generateObstaclesAndCoins s))) < - trackLength s + 30"
    "\<forall>obstacle \<in> set (obstacles (generateObstaclesAndCoins s)).
        px obstacle \<in> set lanes \<and> - trackLength s + 15 < pz obstacle"
    "\<forall>c \<in> set (coins (generateObstaclesAndCoins s)). px c \<in> set lanes"
proof -
  let ?s0 = "s\<lparr>obstacles := [], coins := []\<rparr>"
  let ?g = "generateObstaclesAndCoins s"
  have lap: "successively nextRow (obstacles ?g)
    \<and> (obstacles ?g \<noteq> [] \<longrightarrow> pz (last (obstacles ?g)) - 15 < min (- 15) (- trackLength ?s0 + 15))
    \<and> (\<forall>obstacle \<in> set (obstacles ?g). - trackLength ?s0 + 15 < pz obstacle)
    \<and> (\<forall>c \<in> set (coins ?g). px c \<in> set lanes)"
    unfolding generateObstaclesAndCoins_def
    by (rule generateLoop_lap) simp_all
  obtain r s2 where rs: "Math_random (generateRow (- 15) ?s0) = (r, s2)"
    by (cases "Math_random (generateRow (- 15) ?s0)")
  obtain obstacle where o: "obstacles (generateRow (- 15) ?s0) = [obstacle]"
    "pz obstacle = - 15"
    "px obstacle = lanes ! nat \<lfloor>Rep_rand (randoms s (randomCount s)) * 3\<rfloor>"
    using obstacles_generateRow [of "- 15" ?s0] by auto
  have "\<lfloor>Rep_rand (randoms s (randomCount s)) * 3\<rfloor> \<in> {0, 1, 2}"
    using Rep_rand [of "randoms s (randomCount s)"] by (intro lane_of_random) simp_all
  then have ol: "px obstacle \<in> set lanes" by (auto simp: o(3) lanes_def)
  have os2: "obstacles s2 = [obstacle]"
    using obstacles_Math_random [of "generateRow (- 15) ?s0"] rs o(1) by simp
  have e: "?g = generateLoop (- 15 - (r * 10 + 5)) s2"
    unfolding generateObstaclesAndCoins_def
    using assms rs by (subst generateLoop.simps) simp
  obtain xs where xs: "obstacles (generateLoop (- 15 - (r * 10 + 5)) s2) = obstacles s2 @ xs"
    using generateLoop_grows [of "- 15 - (r * 10 + 5)" s2] by blast
  have first: "obstacles ?g = obstacle # xs" unfolding e xs os2 by simp
  show "\<exists>obstacle xs. obstacles ?g = obstacle # xs \<and> pz obstacle = - 15 \<and> px obstacle \<in> set lanes"
    using first o(2) ol by blast
  show "successively nextRow (obstacles ?g)" using lap by blast
  have "pz (last (obstacles ?g)) - 15 < min (- 15) (- trackLength ?s0 + 15)"
    using lap first by simp
  then show "pz (last (obstacles ?g)) < - trackLength s + 30" by simp
  have lanes: "\<forall>obstacle \<in> set (obstacles ?g). px obstacle \<in> set lanes"
    using generateLoop_rows [of "?s0" "- 15"] unfolding generateObstaclesAndCoins_def by simp
  show "\<forall>obstacle \<in> set (obstacles ?g). px obstacle \<in> set lanes \<and> - trackLength s + 15 < pz obstacle"
    using lap lanes by simp
  show "\<forall>c \<in> set (coins ?g). px c \<in> set lanes" using lap by blast
qed

text \<open>
  C9. For every random source, a row of the layout generator adds exactly one obstacle, at
  the row's depth and on one of the three lanes, and at most one coin on each of the two
  other lanes, none on the obstacle's lane. The rows of a lap lie at strictly decreasing
  depths, so at no depth does the lap have obstacles on more than one lane, and never on
  all three.
\<close>

theorem one_obstacle_per_row:
  "(\<exists>obstacle cs.
       obstacles (generateRow z s) = obstacles s @ [obstacle]
       \<and> coins (generateRow z s) = coins s @ cs
       \<and> pz obstacle = z \<and> px obstacle \<in> set lanes
       \<and> (\<forall>c \<in> set cs. px c \<in> set lanes \<and> px c \<noteq> px obstacle)
       \<and> distinct (map px cs))
   \<and> sorted_wrt (\<lambda>a b. pz b < pz a) (obstacles (generateObstaclesAndCoins s))
   \<and> (\<forall>obstacle \<in> set (obstacles (generateObstaclesAndCoins s)). px obstacle \<in> set lanes)
   \<and> (\<forall>z. length (filter (\<lambda>obstacle. pz obstacle = z) (obstacles (generateObstaclesAndCoins s))) \<le> 1)"
proof -
  let ?l = "\<lfloor>Rep_rand (randoms s (randomCount s)) * 3\<rfloor>"
  obtain obstacle where o: "obstacles (generateRow z s) = obstacles s @ [obstacle]"
    "pz obstacle = z" "px obstacle = lanes ! nat ?l"
    using obstacles_generateRow [of z s] by blast
  obtain cs where cs: "coins (generateRow z s) = coins s @ cs"
    "\<forall>c \<in> set cs. px c \<in> set lanes \<and> px c \<noteq> lanes ! nat ?l" "distinct (map px cs)"
    using coins_generateRow [of z s] by blast
  have "?l \<in> {0, 1, 2}"
    using Rep_rand [of "randoms s (randomCount s)"] by (intro lane_of_random) simp_all
  then have ol: "px obstacle \<in> set lanes" by (auto simp: o(3) lanes_def)
  have row: "\<exists>obstacle cs.
       obstacles (generateRow z s) = obstacles s @ [obstacle]
       \<and> coins (generateRow z s) = coins s @ cs
       \<and> pz obstacle = z \<and> px obstacle \<in> set lanes
       \<and> (\<forall>c \<in> set cs. px c \<in> set lanes \<and> px c \<noteq> px obstacle)
       \<and> distinct (map px cs)"
    using o cs ol by (intro exI [of _ obstacle] exI [of _ cs]) simp
  let ?os = "obstacles (generateObstaclesAndCoins s)"
  have lap: "sorted_wrt (\<lambda>a b. pz b < pz a) ?os \<and> (\<forall>obstacle \<in> set ?os. px obstacle \<in> set lanes)"
    unfolding generateObstaclesAndCoins_def
    by (rule generateLoop_rows) simp_all
  have one: "length (filter (\<lambda>obstacle. pz obstacle = d) ?os) \<le> 1" for d
  proof -
    have "length (filter (\<lambda>obstacle. pz obstacle = d) xs) \<le> 1"
      if "sorted_wrt (\<lambda>a b. pz b < pz a) xs" for xs :: "object3d list"
      using that
    proof (induction xs)
      case Nil
      show ?case by simp
    next
      case (Cons a xs)
      have "filter (\<lambda>obstacle. pz obstacle = d) xs = []" if "pz a = d"
        using Cons.prems that by (auto simp: filter_empty_conv)
      then show ?case using Cons by auto
    qed
    then show ?thesis using lap by blast
  qed
  show ?thesis using row lap one by blast
qed

theorem one_obstacle_per_row_witness:
  "sorted_wrt (\<lambda>a b. pz b < pz a) (obstacles (generateObstaclesAndCoins exampleGame))
   \<and> length (filter (\<lambda>obstacle. pz obstacle = - 15) (obstacles (generateObstaclesAndCoins exampleGame))) \<le> 1
   \<and> (\<exists>obstacle cs.
       obstacles (generateRow (- 15) exampleGame) = obstacles exampleGame @ [obstacle]
       \<and> coins (generateRow (- 15) exampleGame) = coins exampleGame @ cs
       \<and> pz obstacle = - 15 \<and> px obstacle \<in> set lanes
       \<and> (\<forall>c \<in> set cs. px c \<in> set lanes \<and> px c \<noteq> px obstacle)
       \<and> distinct (map px cs))
   \<and> obstacles (generateRow (- 15) exampleGame) =
       obstacles exampleGame
       @ [\<lparr>shape = Log, px = 0, py = 4 / 10, pz = - 15, rotx = pi / 2, rotz = pi / 2\<rparr>]
   \<and> coins (generateRow (- 15) exampleGame) =
       coins exampleGame
       @ [\<lparr>shape = Coin, px = - 2, py = 8 / 10, pz = - 33 / 2, rotx = pi / 2, rotz = 0\<rparr>,
          \<lparr>shape = Coin, px = 2, py = 8 / 10, pz = - 33 / 2, rotx = pi / 2, rotz = 0\<rparr>]"
proof -
  have row: "obstacles (generateRow (- 15) exampleGame) =
       obstacles exampleGame
       @ [\<lparr>shape = Log, px = 0, py = 4 / 10, pz = - 15, rotx = pi / 2, rotz = pi / 2\<rparr>]
   \<and> coins (generateRow (- 15) exampleGame) =
       coins exampleGame
       @ [\<lparr>shape = Coin, px = - 2, py = 8 / 10, pz = - 33 / 2, rotx = pi / 2, rotz = 0\<rparr>,
          \<lparr>shape = Coin, px = 2, py = 8 / 10, pz = - 33 / 2, rotx = pi / 2, rotz = 0\<rparr>]"
    by (simp add: generateRow_def createObstacle_def coinInLane_def createCoin_def Math_random_def
        Let_def exampleGame_def lanes_def Abs_rand_inverse)
  show ?thesis
    using one_obstacle_per_row [of "- 15" exampleGame] row by blast
qed

section \<open>Starting a run\<close>

lemma Rep_rand_0: "Rep_rand (Abs_rand 0) = 0"
  by (simp add: Abs_rand_inverse)

lemma Rep_rand_half: "Rep_rand (Abs_rand (1 / 2)) = 1 / 2"
  by (simp add: Abs_rand_inverse)

lemma initGame_fields:
  "player (initGame rs) = \<lparr>shape = Player, px = 0, py = 0, pz = 0, rotx = 0, rotz = 0\<rparr>"
  "score (initGame rs) = 0"
  "gameState (initGame rs) = \<lparr>isGameOver = False, isGameActive = False\<rparr>"
  "playerLane (initGame rs) = 1" "isJumping (initGame rs) = False"
  "speed (initGame rs) = 2 / 10" "trackLength (initGame rs) = 500"
  "trackPosition (initGame rs) = 0" "frameCallbacks (initGame rs) = []"
  "randoms (initGame rs) = rs"
proof -
  let ?s0 = "constructed rs"
  note f = layoutOnly_fields [OF layoutOnly_generateObstaclesAndCoins [of ?s0]]
  have c: "player ?s0 = \<lparr>shape = Player, px = 0, py = 0, pz = 0, rotx = 0, rotz = 0\<rparr>"
    "score ?s0 = 0" "gameState ?s0 = \<lparr>isGameOver = False, isGameActive = False\<rparr>"
    "playerLane ?s0 = 1" "isJumping ?s0 = False" "speed ?s0 = 2 / 10" "trackLength ?s0 = 500"
    "trackPosition ?s0 = 0" "frameCallbacks ?s0 = []" "randoms ?s0 = rs"
    by (simp_all add: constructed_def)
  show "player (initGame rs) = \<lparr>shape = Player, px = 0, py = 0, pz = 0, rotx = 0, rotz = 0\<rparr>"
    by (simp add: initGame_def Let_def f c lanes_def)
  show "score (initGame rs) = 0" by (simp add: initGame_def Let_def f c)
  show "gameState (initGame rs) = \<lparr>isGameOver = False, isGameActive = False\<rparr>"
    by (simp add: initGame_def Let_def f c)
  show "playerLane (initGame rs) = 1" by (simp add: initGame_def Let_def f c)
  show "isJumping (initGame rs) = False" by (simp add: initGame_def Let_def f c)
  show "speed (initGame rs) = 2 / 10" by (simp add: initGame_def Let_def f c)
  show "trackLength (initGame rs) = 500" by (simp add: initGame_def Let_def f c)
  show "trackPosition (initGame rs) = 0" by (simp add: initGame_def Let_def f c)
  show "frameCallbacks (initGame rs) = []" by (simp add: initGame_def Let_def f c)
  show "randoms (initGame rs) = rs" by (simp add: initGame_def Let_def f c)
qed

text \<open>
  C1 (as amended). \<open>startGame\<close> sets the phase to Active and the score to \<open>0\<close> and leaves
  every other field as it is: the speed, the track position, the lane, the jump flag, the
  player's position, the obstacles and the coins are not reset, and the lap is not
  generated again. In the Idle state that \<open>initGame\<close> builds these already have their
  base values, so after \<open>startGame\<close> the speed is \<open>0.2\<close>, the track position \<open>0\<close>, the
  player on the centre lane and on the ground, with the lap of the construction in place.
\<close>

theorem startGame_effect:
  "isGameActive (gameState (startGame s)) \<and> \<not> isGameOver (gameState (startGame s))
   \<and> score (startGame s) = 0
   \<and> speed (startGame s) = speed s \<and> trackPosition (startGame s) = trackPosition s
   \<and> playerLane (startGame s) = playerLane s \<and> isJumping (startGame s) = isJumping s
   \<and> player (startGame s) = player s
   \<and> obstacles (startGame s) = obstacles s \<and> coins (startGame s) = coins s
   \<and> randomCount (startGame s) = randomCount s
   \<and> speed (startGame (initGame rs)) = 2 / 10
   \<and> trackPosition (startGame (initGame rs)) = 0
   \<and> playerLane (startGame (initGame rs)) = 1
   \<and> \<not> isJumping (startGame (initGame rs))
   \<and> px (player (startGame (initGame rs))) = lanes ! 1
   \<and> py (player (startGame (initGame rs))) = 0"
  by (simp add: startGame_def initGame_fields lanes_def)

text \<open>
  The claim as stated fails: in the Idle state built by \<open>initGame\<close> from the random
  source \<open>skewedRandoms\<close>, \<open>startGame\<close> keeps the obstacles of the construction, whose
  first one is on the left lane, where generating the lap again would put the first
  obstacle on the centre lane.
\<close>

theorem startGame_regenerates_counterexample:
  "\<not> isGameActive (gameState (initGame skewedRandoms))
   \<and> \<not> isGameOver (gameState (initGame skewedRandoms))
   \<and> obstacles (startGame (initGame skewedRandoms)) = obstacles (initGame skewedRandoms)
   \<and> obstacles (startGame (initGame skewedRandoms))
       \<noteq> obstacles (generateObstaclesAndCoins (initGame skewedRandoms))"
proof -
  let ?s0 = "constructed skewedRandoms"
  let ?i = "initGame skewedRandoms"
  have oi: "obstacles ?i = obstacles (generateObstaclesAndCoins ?s0)"
    and ri: "randomCount ?i = randomCount (generateObstaclesAndCoins ?s0)"
    by (simp_all add: initGame_def Let_def)
  obtain a xs where a: "obstacles (generateObstaclesAndCoins ?s0) = a # xs"
    "px a = lanes ! nat \<lfloor>Rep_rand (randoms ?s0 (randomCount ?s0)) * 3\<rfloor>"
    "randomCount ?s0 < randomCount (generateObstaclesAndCoins ?s0)"
    using generate_first_obstacle [of ?s0] by (auto simp: constructed_def)
  have pa: "px a = - 2"
    by (simp add: a(2) skewedRandoms_def Rep_rand_0 lanes_def constructed_def)
  have pos: "0 < randomCount ?i" using a(3) ri by simp
  obtain b ys where b: "obstacles (generateObstaclesAndCoins ?i) = b # ys"
    "px b = lanes ! nat \<lfloor>Rep_rand (randoms ?i (randomCount ?i)) * 3\<rfloor>"
    using generate_first_obstacle [of ?i] by (auto simp: initGame_fields)
  have pb: "px b = 0"
    using pos by (simp add: b(2) initGame_fields skewedRandoms_def Rep_rand_half lanes_def)
  have "obstacles ?i \<noteq> obstacles (generateObstaclesAndCoins ?i)"
    using pa pb by (auto simp: oi a(1) b(1))
  then show ?thesis
    by (simp add: startGame_def initGame_fields)
qed

text \<open>
  C3 (as amended). \<open>startGame\<close> has no guard on the phase: in every phase it sets the
  score to \<open>0\<close> and the phase to Active. It returns the state as it is exactly when the
  run is already active with score \<open>0\<close>; hence a second call right after the first has
  no further effect.
\<close>

theorem startGame_idempotent:
  "startGame (startGame s) = startGame s
   \<and> (startGame s = s \<longleftrightarrow>
        score s = 0 \<and> isGameActive (gameState s) \<and> \<not> isGameOver (gameState s))"
proof -
  have "startGame s = s" if "score s = 0" "isGameActive (gameState s)" "\<not> isGameOver (gameState s)"
  proof -
    have "gameState s = \<lparr>isGameOver = False, isGameActive = True\<rparr>"
      using that by (cases "gameState s") simp
    then show ?thesis using that(1) by (simp add: startGame_def)
  qed
  moreover have "score s = 0 \<and> isGameActive (gameState s) \<and> \<not> isGameOver (gameState s)"
    if e: "startGame s = s"
  proof -
    have "score s = 0" using arg_cong [OF e, of score] by (simp add: startGame_def)
    moreover have "gameState s = \<lparr>isGameOver = False, isGameActive = True\<rparr>"
      using arg_cong [OF e, of gameState] by (simp add: startGame_def)
    ultimately show ?thesis by simp
  qed
  moreover have "startGame (startGame s) = startGame s" by (simp add: startGame_def)
  ultimately show ?thesis by blast
qed

text \<open>
  The claim as stated fails: after one frame of an active run the score is \<open>0.1\<close>, and
  \<open>startGame\<close> in this Active state puts it back to \<open>0\<close>. The same holds one frame
  after the start of the game that \<open>initGame\<close> builds, where the score is positive.
\<close>

theorem startGame_noop_counterexample:
  "isGameActive (gameState (updateGame (startGame exampleGame)))
   \<and> \<not> isGameOver (gameState (updateGame (startGame exampleGame)))
   \<and> score (updateGame (startGame exampleGame)) = 1 / 10
   \<and> score (startGame (updateGame (startGame exampleGame))) = 0
   \<and> startGame (updateGame (startGame exampleGame)) \<noteq> updateGame (startGame exampleGame)
   \<and> (isGameActive (gameState (updateGame (startGame (initGame skewedRandoms))))
        \<or> isGameOver (gameState (updateGame (startGame (initGame skewedRandoms)))))
   \<and> startGame (updateGame (startGame (initGame skewedRandoms)))
       \<noteq> updateGame (startGame (initGame skewedRandoms))"
proof -
  let ?t = "updateGame (startGame exampleGame)"
  have t: "isGameActive (gameState ?t)" "\<not> isGameOver (gameState ?t)" "score ?t = 1 / 10"
    by (simp_all add: updateGame_def startGame_def exampleGame_def Let_def moveObstacle_def
        isPlayerColliding_def coinStep_def moveCoin_def increaseScore_def gameOver_def)
  have z: "score (startGame ?t) = 0" by (simp add: startGame_def)
  have n: "startGame ?t \<noteq> ?t"
  proof
    assume "startGame ?t = ?t"
    then have "score (startGame ?t) = score ?t" by (rule arg_cong)
    then show False by (simp add: t(3) z)
  qed
  let ?s = "startGame (initGame skewedRandoms)"
  have act: "isGameActive (gameState ?s)" "\<not> isGameOver (gameState ?s)"
    by (simp_all add: startGame_def)
  have sc: "score ?s = 0" by (simp add: startGame_def)
  have pos: "0 < score (updateGame ?s)" using updateGame_score(1) [OF act] sc by simp
  have m: "startGame (updateGame ?s) \<noteq> updateGame ?s"
  proof
    assume "startGame (updateGame ?s) = updateGame ?s"
    then have "score (startGame (updateGame ?s)) = score (updateGame ?s)" by (rule arg_cong)
    then show False using pos by (simp add: startGame_def)
  qed
  show ?thesis
    by (intro conjI) (rule t z n m updateGame_score(2) [OF act])+
qed

section \<open>Collision\<close>

lemma sin_first_jump_step: "\<bar>2 * sin (pi / 20) - 2 / 5\<bar> < 1 / 2"
proof -
  have p: "0 < pi / 20" "pi / 20 < pi" by simp_all
  have "0 < sin (pi / 20)" using sin_gt_zero [OF p] .
  moreover have "sin (pi / 20) \<le> pi / 20" by (rule sin_x_le_x) simp
  moreover have "pi / 20 < 1 / 4" using pi_less_4 by simp
  ultimately show ?thesis unfolding abs_less_iff by linarith
qed

text \<open>
  C5. The collision test is strict at the boundary. When the centres are exactly the sum
  of the half-extents apart on every axis (or at least that far apart on any one axis)
  the player and the object do not collide; when the distance is below the sum of the
  half-extents on all three axes they do. So from the boundary, moving closer on one axis
  while the other two overlap makes them collide.
\<close>

theorem collision_boundary_strict:
  "(\<bar>px (player s) - px object\<bar> = (7 / 10 + 8 / 10) / 2
      \<and> \<bar>pz (player s) - pz object\<bar> = (5 / 10 + 8 / 10) / 2
      \<and> \<bar>py (player s) - py object\<bar> = ((if isJumping s then 0 else 15 / 10) + 1) / 2
     \<longrightarrow> \<not> isPlayerColliding s object)
   \<and> (\<bar>px (player s) - px object\<bar> \<ge> (7 / 10 + 8 / 10) / 2
      \<or> \<bar>pz (player s) - pz object\<bar> \<ge> (5 / 10 + 8 / 10) / 2
      \<or> \<bar>py (player s) - py object\<bar> \<ge> ((if isJumping s then 0 else 15 / 10) + 1) / 2
     \<longrightarrow> \<not> isPlayerColliding s object)
   \<and> (\<bar>px (player s) - px object\<bar> < (7 / 10 + 8 / 10) / 2
      \<and> \<bar>pz (player s) - pz object\<bar> < (5 / 10 + 8 / 10) / 2
      \<and> \<bar>py (player s) - py object\<bar> < ((if isJumping s then 0 else 15 / 10) + 1) / 2
     \<longrightarrow> isPlayerColliding s object)"
  by (auto simp: isPlayerColliding_def Let_def)

theorem collision_boundary_strict_witness:
  "\<bar>px (player exampleGame) - 3 / 4\<bar> = (7 / 10 + 8 / 10) / 2
   \<and> \<bar>pz (player exampleGame) - 13 / 20\<bar> = (5 / 10 + 8 / 10) / 2
   \<and> \<bar>py (player exampleGame) - 5 / 4\<bar> = ((if isJumping exampleGame then 0 else 15 / 10) + 1) / 2
   \<and> \<not> isPlayerColliding exampleGame
         \<lparr>shape = Rock, px = 3 / 4, py = 5 / 4, pz = 13 / 20, rotx = 0, rotz = 0\<rparr>
   \<and> isPlayerColliding exampleGame
         \<lparr>shape = Rock, px = 74 / 100, py = 5 / 4 - 1 / 100, pz = 13 / 20 - 1 / 100, rotx = 0, rotz = 0\<rparr>
   \<and> \<not> isPlayerColliding exampleGame
         \<lparr>shape = Rock, px = 74 / 100, py = 5 / 4, pz = 13 / 20 - 1 / 100, rotx = 0, rotz = 0\<rparr>"
  using collision_boundary_strict [of exampleGame
      "\<lparr>shape = Rock, px = 3 / 4, py = 5 / 4, pz = 13 / 20, rotx = 0, rotz = 0\<rparr>"]
    collision_boundary_strict [of exampleGame
      "\<lparr>shape = Rock, px = 74 / 100, py = 5 / 4 - 1 / 100, pz = 13 / 20 - 1 / 100, rotx = 0, rotz = 0\<rparr>"]
    collision_boundary_strict [of exampleGame
      "\<lparr>shape = Rock, px = 74 / 100, py = 5 / 4, pz = 13 / 20 - 1 / 100, rotx = 0, rotz = 0\<rparr>"]
  by (simp add: exampleGame_def)

text \<open>
  C2. The source says of the height \<open>0\<close> of a jumping player: "Gives player a pass when
  jumping". The code does not give that pass at every height: the vertical test compares
  the distance of the centres with \<open>(0 + 1) / 2\<close>, half the object's height, which stays
  when the player's own height is \<open>0\<close>. On the first step of a jump from the ground the
  player is at height \<open>2 sin (\<pi>/20)\<close>, about \<open>0.31\<close>, within \<open>0.5\<close> of a rock's centre
  at \<open>0.4\<close>: while \<open>isJumping\<close> is true the vertical test holds, the collision test
  returns true for a rock at the player's place, and a frame update with a rock half a
  unit ahead ends the run.
\<close>

theorem jumping_collides_on_first_step:
  "isJumping (jump (startGame exampleGame))
   \<and> \<bar>py (player (jump (startGame exampleGame))) - py (rockAt 0)\<bar> < (0 + 1) / 2
   \<and> isPlayerColliding (jump (startGame exampleGame)) (rockAt 0)
   \<and> isGameOver (gameState (updateGame (jump (startGame (exampleGame\<lparr>obstacles := [rockAt (- 1 / 2)]\<rparr>)))))"
proof -
  have "isJumping (jump (startGame exampleGame))"
    by (simp add: jump_def animateJump_def startGame_def exampleGame_def Let_def)
  moreover have "\<bar>py (player (jump (startGame exampleGame))) - py (rockAt 0)\<bar> < (0 + 1) / 2"
    using sin_first_jump_step
    by (simp add: jump_def animateJump_def startGame_def exampleGame_def rockAt_def Let_def)
  moreover have "isPlayerColliding (jump (startGame exampleGame)) (rockAt 0)"
    using sin_first_jump_step
    by (simp add: jump_def animateJump_def startGame_def exampleGame_def isPlayerColliding_def
        rockAt_def Let_def)
  moreover have "isGameOver (gameState (updateGame (jump (startGame (exampleGame\<lparr>obstacles := [rockAt (- 1 / 2)]\<rparr>)))))"
    using sin_first_jump_step
    by (simp add: updateGame_def jump_def animateJump_def startGame_def exampleGame_def
        isPlayerColliding_def rockAt_def Let_def moveObstacle_def gameOver_def coinStep_def
        moveCoin_def increaseScore_def)
  ultimately show ?thesis by blast
qed

theorem jumping_collides_on_first_step_witness:
  "isJumping (jump (startGame exampleGame))
   \<and> isPlayerColliding (jump (startGame exampleGame)) (rockAt 0)
   \<and> isGameOver (gameState (updateGame (jump (startGame (exampleGame\<lparr>obstacles := [rockAt (- 1 / 2)]\<rparr>)))))"
  using jumping_collides_on_first_step by blast

section \<open>The track position\<close>

lemma updateGame_track:
  assumes "0 \<le> speed s" "0 \<le> trackPosition s" "trackPosition s < trackLength s"
  shows "0 \<le> speed (updateGame s) \<and> 0 \<le> trackPosition (updateGame s)
     \<and> trackPosition (updateGame s) < trackLength (updateGame s)
     \<and> trackLength (updateGame s) = trackLength s"
proof (cases "isGameActive (gameState s) \<and> \<not> isGameOver (gameState s)")
  case False
  then have "updateGame s = s" by (simp add: updateGame_def)
  then show ?thesis using assms by simp
next
  case True
  define v where "v = speed s + 5 / 100000"
  define s3 where "s3 = (if trackLength s - 20 \<le> trackPosition s + v
                   then generateObstaclesAndCoins (s\<lparr>speed := v, trackPosition := 0\<rparr>)
                   else s\<lparr>speed := v, trackPosition := trackPosition s + v\<rparr>)"
  note u = updateGame_active [OF conjunct1 [OF True] conjunct2 [OF True] v_def s3_def]
  have v0: "0 \<le> v" using assms(1) by (simp add: v_def)
  have f: "speed (updateGame s) = speed s3" "trackPosition (updateGame s) = trackPosition s3"
    "trackLength (updateGame s) = trackLength s3"
    by (simp_all add: u)
  note g = layoutOnly_fields [OF layoutOnly_generateObstaclesAndCoins
      [of "s\<lparr>speed := v, trackPosition := 0\<rparr>"]]
  show ?thesis
  proof (cases "trackLength s - 20 \<le> trackPosition s + v")
    case True
    then have "speed s3 = v" "trackPosition s3 = 0" "trackLength s3 = trackLength s"
      by (simp_all add: s3_def g)
    then show ?thesis using assms v0 by (simp add: f)
  next
    case False
    then have "speed s3 = v" "trackPosition s3 = trackPosition s + v"
      "trackLength s3 = trackLength s"
      by (simp_all add: s3_def)
    then show ?thesis using assms v0 False by (simp add: f)
  qed
qed

lemma updateGame_iterate_track:
  assumes "0 \<le> speed s" "0 \<le> trackPosition s" "trackPosition s < trackLength s"
  shows "0 \<le> speed ((updateGame ^^ n) s) \<and> 0 \<le> trackPosition ((updateGame ^^ n) s)
     \<and> trackPosition ((updateGame ^^ n) s) < trackLength ((updateGame ^^ n) s)
     \<and> trackLength ((updateGame ^^ n) s) = trackLength s"
proof (induction n)
  case 0
  show ?case using assms by simp
next
  case (Suc n)
  show ?case using updateGame_track [of "(updateGame ^^ n) s"] Suc by simp
qed

lemma updateGame_recycle:
  assumes act: "isGameActive (gameState s)" "\<not> isGameOver (gameState s)"
    and v: "v = speed s + 5 / 100000"
    and thr: "trackLength s - 20 \<le> trackPosition s + v"
    and g: "g = generateObstaclesAndCoins (s\<lparr>speed := v, trackPosition := 0\<rparr>)"
  shows "trackPosition (updateGame s) = 0"
    "updateGame s = updateGame (s\<lparr>obstacles := [], coins := []\<rparr>)"
    "obstacles (updateGame s) = map (moveObstacle v) (obstacles g)"
    "coins (updateGame s) = filter (\<lambda>c. \<not> isPlayerColliding s c) (map (moveCoin v) (coins g))"
proof -
  let ?e = "s\<lparr>obstacles := [], coins := []\<rparr>"
  have s3: "g = (if trackLength s - 20 \<le> trackPosition s + v
                 then generateObstaclesAndCoins (s\<lparr>speed := v, trackPosition := 0\<rparr>)
                 else s\<lparr>speed := v, trackPosition := trackPosition s + v\<rparr>)"
    using thr g by simp
  note u = updateGame_active [OF act v s3]
  have ge: "generateObstaclesAndCoins (?e\<lparr>speed := v, trackPosition := 0\<rparr>) = g"
    by (simp add: generateObstaclesAndCoins_def g)
  have s3e: "g = (if trackLength ?e - 20 \<le> trackPosition ?e + v
                  then generateObstaclesAndCoins (?e\<lparr>speed := v, trackPosition := 0\<rparr>)
                  else ?e\<lparr>speed := v, trackPosition := trackPosition ?e + v\<rparr>)"
    using thr by (simp only: ge) simp
  have acte: "isGameActive (gameState ?e)" "\<not> isGameOver (gameState ?e)" using act by simp_all
  have ve: "v = speed ?e + 5 / 100000" using v by simp
  note ue = updateGame_active [OF acte ve s3e]
  have ce: "isPlayerColliding ?e = isPlayerColliding s"
    by (rule isPlayerColliding_cong) simp_all
  show "updateGame s = updateGame ?e"
    unfolding u ue ce by simp
  have tp: "trackPosition g = 0"
    unfolding g
    using layoutOnly_fields(8) [OF layoutOnly_generateObstaclesAndCoins
        [of "s\<lparr>speed := v, trackPosition := 0\<rparr>"]] by simp
  show "trackPosition (updateGame s) = 0" by (simp add: u tp)
  show "obstacles (updateGame s) = map (moveObstacle v) (obstacles g)" by (simp add: u)
  show "coins (updateGame s) = filter (\<lambda>c. \<not> isPlayerColliding s c) (map (moveCoin v) (coins g))"
    by (simp add: u)
qed

lemma updateGame_advance:
  assumes act: "isGameActive (gameState s)" "\<not> isGameOver (gameState s)"
    and v: "v = speed s + 5 / 100000"
    and thr: "trackPosition s + v < trackLength s - 20"
  shows "trackPosition (updateGame s) = trackPosition s + v"
    "obstacles (updateGame s) = map (moveObstacle v) (obstacles s)"
proof -
  have s3: "s\<lparr>speed := v, trackPosition := trackPosition s + v\<rparr> =
      (if trackLength s - 20 \<le> trackPosition s + v
       then generateObstaclesAndCoins (s\<lparr>speed := v, trackPosition := 0\<rparr>)
       else s\<lparr>speed := v, trackPosition := trackPosition s + v\<rparr>)"
    using thr by simp
  note u = updateGame_active [OF act v s3]
  show "trackPosition (updateGame s) = trackPosition s + v" by (simp add: u)
  show "obstacles (updateGame s) = map (moveObstacle v) (obstacles s)" by (simp add: u)
qed

lemma updateGame_recycle_lap:
  assumes act: "isGameActive (gameState s)" "\<not> isGameOver (gameState s)"
    and v: "v = speed s + 5 / 100000"
    and thr: "trackLength s - 20 \<le> trackPosition s + v"
    and g: "g = generateObstaclesAndCoins (s\<lparr>speed := v, trackPosition := 0\<rparr>)"
    and len: "30 < trackLength s"
  shows "obstacles (updateGame s) \<noteq> []"
    "pz (hd (obstacles (updateGame s))) = - 15 + v"
    "\<exists>obstacle xs. obstacles g = obstacle # xs \<and> pz obstacle = - 15 \<and> px obstacle \<in> set lanes"
    "successively nextRow (obstacles g)"
    "pz (last (obstacles g)) < - trackLength s + 30"
    "\<forall>obstacle \<in> set (obstacles g). px obstacle \<in> set lanes \<and> - trackLength s + 15 < pz obstacle"
    "\<forall>c \<in> set (coins g). px c \<in> set lanes"
proof -
  let ?s = "s\<lparr>speed := v, trackPosition := 0\<rparr>"
  have l: "30 < trackLength ?s" using len by simp
  have tl: "trackLength ?s = trackLength s" by simp
  note lap = generated_lap [OF l, folded g, unfolded tl]
  note r = updateGame_recycle [OF act v thr g]
  obtain obstacle xs where o: "obstacles g = obstacle # xs" "pz obstacle = - 15"
    using lap(1) by blast
  show "obstacles (updateGame s) \<noteq> []" by (simp add: r(3) o(1))
  show "pz (hd (obstacles (updateGame s))) = - 15 + v"
    by (simp add: r(3) o moveObstacle_def)
  show "\<exists>obstacle xs. obstacles g = obstacle # xs \<and> pz obstacle = - 15 \<and> px obstacle \<in> set lanes"
    by (rule lap(1))
  show "successively nextRow (obstacles g)" by (rule lap(2))
  show "pz (last (obstacles g)) < - trackLength s + 30" by (rule lap(3))
  show "\<forall>obstacle \<in> set (obstacles g). px obstacle \<in> set lanes \<and> - trackLength s + 15 < pz obstacle"
    by (rule lap(4))
  show "\<forall>c \<in> set (coins g). px c \<in> set lanes" by (rule lap(5))
qed



section \<open>The frame update outside a run\<close>

text \<open>
  C6. The frame update is a no-op unless the run is active: in every state whose phase is
  Idle or GameOver, \<open>updateGame\<close> returns the state as it is, so the score, the speed, the
  track position and every obstacle and coin are unchanged.
\<close>

theorem updateGame_noop_unless_active:
  "\<not> isGameActive (gameState s) \<or> isGameOver (gameState s) \<Longrightarrow> updateGame s = s"
  by (simp add: updateGame_def)

theorem updateGame_noop_unless_active_witness:
  "\<not> isGameActive (gameState exampleGame)
   \<and> updateGame exampleGame = exampleGame
   \<and> isGameOver (gameState (gameOver (startGame exampleGame)))
   \<and> updateGame (gameOver (startGame exampleGame)) = gameOver (startGame exampleGame)"
  using updateGame_noop_unless_active [of exampleGame]
    updateGame_noop_unless_active [of "gameOver (startGame exampleGame)"]
  by (simp add: exampleGame_def gameOver_def startGame_def)

section \<open>Keyboard input\<close>

text \<open>
  C10. A key-down event changes nothing unless the run is active: in Idle and in GameOver
  every key, lane change and jump alike, leaves the state as it is; and a key that is
  none of the ten the handler knows leaves the state as it is in every phase.
\<close>

theorem handleKeyDown_ignored:
  "(\<not> isGameActive (gameState s) \<or> isGameOver (gameState s) \<longrightarrow> handleKeyDown key s = s)
   \<and> (key \<notin> {''ArrowLeft'', ''a'', ''A'', ''ArrowRight'', ''d'', ''D'',
               ''ArrowUp'', ''w'', ''W'', '' ''} \<longrightarrow> handleKeyDown key s = s)"
  by (simp add: handleKeyDown_def)

theorem handleKeyDown_ignored_witness:
  "\<not> isGameActive (gameState exampleGame)
   \<and> handleKeyDown ''ArrowLeft'' exampleGame = exampleGame
   \<and> handleKeyDown '' '' exampleGame = exampleGame
   \<and> isGameOver (gameState (gameOver (startGame exampleGame)))
   \<and> handleKeyDown ''ArrowUp'' (gameOver (startGame exampleGame)) = gameOver (startGame exampleGame)
   \<and> ''x'' \<notin> {''ArrowLeft'', ''a'', ''A'', ''ArrowRight'', ''d'', ''D'',
               ''ArrowUp'', ''w'', ''W'', '' ''}
   \<and> handleKeyDown ''x'' (startGame exampleGame) = startGame exampleGame"
  using handleKeyDown_ignored [of exampleGame "''ArrowLeft''"]
    handleKeyDown_ignored [of exampleGame "'' ''"]
    handleKeyDown_ignored [of "gameOver (startGame exampleGame)" "''ArrowUp''"]
    handleKeyDown_ignored [of "startGame exampleGame" "''x''"]
  by (simp add: exampleGame_def gameOver_def startGame_def)

section \<open>Lane changes\<close>

lemma playerLane_animateLaneChange [simp]:
  "playerLane (animateLaneChange a b p s) = playerLane s"
  by (simp add: animateLaneChange_def Let_def)

text \<open>
  C7. After \<open>moveLanes\<close> the lane index lies in \<open>0..2\<close>; for a direction \<open>-1\<close> or \<open>+1\<close>
  from a lane \<open>0\<close>, \<open>1\<close> or \<open>2\<close> it is the clamped sum. \<open>moveLanes (-1)\<close> on lane \<open>0\<close> and
  \<open>moveLanes 1\<close> on lane \<open>2\<close> return the state as it is: the lane, the player's lateral
  position and everything else are unchanged.
\<close>

theorem moveLanes_clamped:
  "0 \<le> playerLane (moveLanes d s) \<and> playerLane (moveLanes d s) \<le> 2
   \<and> (playerLane s \<in> {0, 1, 2} \<and> d \<in> {- 1, 1} \<longrightarrow>
        playerLane (moveLanes d s) = max 0 (min 2 (playerLane s + d)))
   \<and> (playerLane s = 0 \<longrightarrow> moveLanes (- 1) s = s)
   \<and> (playerLane s = 2 \<longrightarrow> moveLanes 1 s = s)"
  by (auto simp: moveLanes_def Let_def max_def min_def)

theorem moveLanes_clamped_witness:
  "playerLane (exampleGame\<lparr>playerLane := 0\<rparr>) = 0
   \<and> moveLanes (- 1) (exampleGame\<lparr>playerLane := 0\<rparr>) = exampleGame\<lparr>playerLane := 0\<rparr>
   \<and> playerLane (exampleGame\<lparr>playerLane := 2\<rparr>) = 2
   \<and> moveLanes 1 (exampleGame\<lparr>playerLane := 2\<rparr>) = exampleGame\<lparr>playerLane := 2\<rparr>
   \<and> playerLane exampleGame \<in> {0, 1, 2}
   \<and> playerLane (moveLanes 1 exampleGame) = 2
   \<and> playerLane (moveLanes (- 1) exampleGame) = 0"
  using moveLanes_clamped [of "- 1" "exampleGame\<lparr>playerLane := 0\<rparr>"]
    moveLanes_clamped [of 1 "exampleGame\<lparr>playerLane := 2\<rparr>"]
    moveLanes_clamped [of 1 exampleGame]
    moveLanes_clamped [of "- 1" exampleGame]
  by (simp add: exampleGame_def)

section \<open>The jump\<close>

lemma isJumping_runCallback: "isJumping (runCallback cb t) \<Longrightarrow> isJumping t"
  by (cases cb) (auto simp: animateLaneChange_def animateJump_def Let_def split: if_splits)

lemma isJumping_fold: "isJumping (fold runCallback q t) \<Longrightarrow> isJumping t"
  by (induction q arbitrary: t) (auto dest: isJumping_runCallback)

lemma isJumping_animationFrame: "isJumping (animationFrame t) \<Longrightarrow> isJumping t"
  unfolding animationFrame_def by (drule isJumping_fold) simp

lemma isJumping_frames: "isJumping ((animationFrame ^^ (k + j)) t) \<Longrightarrow> isJumping ((animationFrame ^^ k) t)"
proof (induction j)
  case 0
  then show ?case by simp
next
  case (Suc j)
  then show ?case by (auto dest: isJumping_animationFrame)
qed

lemma animationFrame_last_jump:
  assumes q: "frameCallbacks t = q @ [AnimateJump y0 p]"
  shows "animationFrame t = animateJump y0 p (fold runCallback q (t\<lparr>frameCallbacks := []\<rparr>))"
  by (simp add: animationFrame_def q)

lemma animateJump_continues:
  assumes "p + 5 / 100 < 1"
  shows "frameCallbacks (animateJump y0 p t) = frameCallbacks t @ [AnimateJump y0 (p + 5 / 100)]"
    "isJumping (animateJump y0 p t) = isJumping t"
  using assms by (simp_all add: animateJump_def Let_def)

lemma animateJump_lands:
  assumes "\<not> p + 5 / 100 < 1"
  shows "py (player (animateJump y0 p t)) = y0" "\<not> isJumping (animateJump y0 p t)"
    "frameCallbacks (animateJump y0 p t) = frameCallbacks t"
  using assms by (simp_all add: animateJump_def Let_def)

lemma fold_lane_only:
  assumes "list_all (\<lambda>cb. \<not> isAnimateJump cb) q"
    "list_all (\<lambda>cb. \<not> isAnimateJump cb) (frameCallbacks t)"
  shows "isJumping (fold runCallback q t) = isJumping t
    \<and> list_all (\<lambda>cb. \<not> isAnimateJump cb) (frameCallbacks (fold runCallback q t))"
  using assms
proof (induction q arbitrary: t)
  case Nil
  then show ?case by simp
next
  case (Cons cb q)
  obtain a b c where cb: "cb = AnimateLaneChange a b c"
    using Cons.prems(1) by (cases cb) auto
  have "isJumping (runCallback cb t) = isJumping t"
    "list_all (\<lambda>cb. \<not> isAnimateJump cb) (frameCallbacks (runCallback cb t))"
    using Cons.prems(2) by (simp_all add: cb animateLaneChange_def Let_def)
  then show ?case using Cons.IH [of "runCallback cb t"] Cons.prems(1) by simp
qed

lemma jump_starts:
  assumes "\<not> isJumping s"
  shows "isJumping (jump s)"
    "frameCallbacks (jump s) = frameCallbacks s @ [AnimateJump (py (player s)) (real (Suc 0) / 20)]"
  using assms by (simp_all add: jump_def animateJump_def Let_def)

lemma jump_queue:
  assumes "\<not> isJumping s" "k \<le> 18"
  shows "\<exists>q. frameCallbacks ((animationFrame ^^ k) (jump s))
           = q @ [AnimateJump (py (player s)) (real (Suc k) / 20)]
         \<and> (list_all (\<lambda>cb. \<not> isAnimateJump cb) (frameCallbacks s) \<longrightarrow>
              list_all (\<lambda>cb. \<not> isAnimateJump cb) q \<and> isJumping ((animationFrame ^^ k) (jump s)))"
  using assms(2)
proof (induction k)
  case 0
  show ?case using jump_starts [OF assms(1)] by simp
next
  case (Suc k)
  let ?t = "(animationFrame ^^ k) (jump s)"
  let ?y = "py (player s)"
  obtain q where q: "frameCallbacks ?t = q @ [AnimateJump ?y (real (Suc k) / 20)]"
    and cl: "list_all (\<lambda>cb. \<not> isAnimateJump cb) (frameCallbacks s) \<longrightarrow>
              list_all (\<lambda>cb. \<not> isAnimateJump cb) q \<and> isJumping ?t"
    using Suc by auto
  let ?u = "fold runCallback q (?t\<lparr>frameCallbacks := []\<rparr>)"
  have lt: "real (Suc k) / 20 + 5 / 100 < 1" using Suc.prems by (simp add: field_simps)
  have p: "real (Suc k) / 20 + 5 / 100 = real (Suc (Suc k)) / 20" by simp
  have f: "animationFrame ?t = animateJump ?y (real (Suc k) / 20) ?u"
    by (rule animationFrame_last_jump [OF q])
  have fc: "frameCallbacks (animationFrame ?t) = frameCallbacks ?u @ [AnimateJump ?y (real (Suc (Suc k)) / 20)]"
    unfolding f using animateJump_continues(1) [OF lt] by (simp only: p)
  have ij: "isJumping (animationFrame ?t) = isJumping ?u"
    unfolding f by (rule animateJump_continues(2) [OF lt])
  have "list_all (\<lambda>cb. \<not> isAnimateJump cb) (frameCallbacks ?u) \<and> isJumping (animationFrame ?t)"
    if "list_all (\<lambda>cb. \<not> isAnimateJump cb) (frameCallbacks s)"
    using fold_lane_only [of q "?t\<lparr>frameCallbacks := []\<rparr>"] cl that ij by simp
  then show ?case using fc by simp
qed

lemma jump_lands:
  assumes "\<not> isJumping s"
  shows "py (player ((animationFrame ^^ 19) (jump s))) = py (player s)"
    "\<not> isJumping ((animationFrame ^^ 19) (jump s))"
proof -
  let ?t = "(animationFrame ^^ 18) (jump s)"
  obtain q where q: "frameCallbacks ?t = q @ [AnimateJump (py (player s)) (real (Suc 18) / 20)]"
    using jump_queue [OF assms, of 18] by auto
  have nl: "\<not> real (Suc 18) / 20 + 5 / 100 < 1" by simp
  have e: "(animationFrame ^^ 19) (jump s) = animationFrame ?t"
    by (simp add: eval_nat_numeral)
  show "py (player ((animationFrame ^^ 19) (jump s))) = py (player s)"
    unfolding e animationFrame_last_jump [OF q] by (rule animateJump_lands(1) [OF nl])
  show "\<not> isJumping ((animationFrame ^^ 19) (jump s))"
    unfolding e animationFrame_last_jump [OF q] by (rule animateJump_lands(2) [OF nl])
qed

lemma updateGame_keeps:
  "isJumping (updateGame t) = isJumping t" "player (updateGame t) = player t"
  "frameCallbacks (updateGame t) = frameCallbacks t"
proof -
  have "isJumping (updateGame t) = isJumping t \<and> player (updateGame t) = player t
      \<and> frameCallbacks (updateGame t) = frameCallbacks t"
  proof (cases "isGameActive (gameState t) \<and> \<not> isGameOver (gameState t)")
    case False
    then have "updateGame t = t" by (simp add: updateGame_def)
    then show ?thesis by simp
  next
    case True
    define v where "v = speed t + 5 / 100000"
    define s3 where "s3 = (if trackLength t - 20 \<le> trackPosition t + v
                   then generateObstaclesAndCoins (t\<lparr>speed := v, trackPosition := 0\<rparr>)
                   else t\<lparr>speed := v, trackPosition := trackPosition t + v\<rparr>)"
    note u = updateGame_active [OF conjunct1 [OF True] conjunct2 [OF True] v_def s3_def]
    note g = layoutOnly_fields [OF layoutOnly_generateObstaclesAndCoins
        [of "t\<lparr>speed := v, trackPosition := 0\<rparr>"]]
    have "isJumping s3 = isJumping t" "player s3 = player t" "frameCallbacks s3 = frameCallbacks t"
      by (simp_all add: s3_def g)
    then show ?thesis by (simp add: u)
  qed
  then show "isJumping (updateGame t) = isJumping t" "player (updateGame t) = player t"
    "frameCallbacks (updateGame t) = frameCallbacks t" by simp_all
qed

lemma laneOnly_simps [simp]:
  "laneOnly []" "laneOnly (a @ b) = (laneOnly a \<and> laneOnly b)"
  "laneOnly (cb # a) = (\<not> isAnimateJump cb \<and> laneOnly a)"
  by (simp_all add: laneOnly_def)

lemma jumpQueuedI:
  "cbs = q @ [AnimateJump y0 p] @ r \<Longrightarrow> laneOnly q \<Longrightarrow> laneOnly r \<Longrightarrow> jumpQueued y0 p cbs"
  unfolding jumpQueued_def by blast

lemma jumpProgressAt_step: "jumpProgressAt c + 5 / 100 = jumpProgressAt (Suc c)"
  by (simp add: jumpProgressAt_def)

lemma jumpProgressAt_below: "c < 18 \<Longrightarrow> jumpProgressAt c + 5 / 100 < 1"
  by (simp add: jumpProgressAt_def field_simps)

lemma jumpProgressAt_end: "\<not> jumpProgressAt 18 + 5 / 100 < 1"
  by (simp add: jumpProgressAt_def)

lemma jumpProgressAt_0: "jumpProgressAt 0 = 0 + 5 / 100"
  by (simp add: jumpProgressAt_def)

lemma moveLanes_keeps:
  "isJumping (moveLanes d t) = isJumping t" "py (player (moveLanes d t)) = py (player t)"
  "\<exists>r. frameCallbacks (moveLanes d t) = frameCallbacks t @ r \<and> laneOnly r"
  by (simp_all add: moveLanes_def animateLaneChange_def Let_def)

lemma fold_lane_keeps:
  assumes "laneOnly q"
  shows "isJumping (fold runCallback q t) = isJumping t
    \<and> py (player (fold runCallback q t)) = py (player t)
    \<and> (\<exists>r. frameCallbacks (fold runCallback q t) = frameCallbacks t @ r \<and> laneOnly r)"
  using assms
proof (induction q arbitrary: t)
  case Nil
  show ?case by simp
next
  case (Cons cb q)
  obtain a b c where cb: "cb = AnimateLaneChange a b c"
    using Cons.prems by (cases cb) auto
  let ?u = "runCallback cb t"
  have u: "isJumping ?u = isJumping t" "py (player ?u) = py (player t)"
    by (simp_all add: cb animateLaneChange_def Let_def)
  obtain r1 where r1: "frameCallbacks ?u = frameCallbacks t @ r1" "laneOnly r1"
    by (cases "c + 1 / 10 < 1") (simp_all add: cb animateLaneChange_def Let_def)
  have q: "laneOnly q" using Cons.prems by simp
  note ih = Cons.IH [OF q, of ?u]
  obtain r2 where r2: "frameCallbacks (fold runCallback q ?u) = frameCallbacks ?u @ r2" "laneOnly r2"
    using ih by blast
  have fc: "frameCallbacks (fold runCallback (cb # q) t) = frameCallbacks t @ (r1 @ r2)"
    using r1(1) r2(1) by simp
  have lo: "laneOnly (r1 @ r2)" using r1(2) r2(2) by simp
  have "isJumping (fold runCallback (cb # q) t) = isJumping t"
    using ih u(1) by simp
  moreover have "py (player (fold runCallback (cb # q) t)) = py (player t)"
    using ih u(2) by simp
  ultimately show ?case using fc lo by blast
qed

lemma jumpInFlight_Frame:
  assumes "jumpInFlight y0 c t"
  shows "jumpInFlight y0 (Suc c) (animationFrame t)"
proof (cases "c < 19")
  case False
  then have t: "\<not> isJumping t" "py (player t) = y0" "laneOnly (frameCallbacks t)"
    using assms by (simp_all add: jumpInFlight_def)
  note k = fold_lane_keeps [OF t(3), of "t\<lparr>frameCallbacks := []\<rparr>"]
  have "\<not> isJumping (animationFrame t)" "py (player (animationFrame t)) = y0"
    "laneOnly (frameCallbacks (animationFrame t))"
    using t(1,2) k by (auto simp: animationFrame_def)
  then show ?thesis using False by (simp add: jumpInFlight_def)
next
  case True
  then have ij: "isJumping t" and jq: "jumpQueued y0 (jumpProgressAt c) (frameCallbacks t)"
    using assms by (simp_all add: jumpInFlight_def)
  obtain q r where fc: "frameCallbacks t = q @ [AnimateJump y0 (jumpProgressAt c)] @ r"
    and q: "laneOnly q" and r: "laneOnly r"
    using jq unfolding jumpQueued_def by blast
  let ?t0 = "t\<lparr>frameCallbacks := []\<rparr>"
  let ?t1 = "fold runCallback q ?t0"
  let ?t2 = "animateJump y0 (jumpProgressAt c) ?t1"
  let ?t3 = "fold runCallback r ?t2"
  have f: "animationFrame t = ?t3" by (simp add: animationFrame_def fc)
  have t1j: "isJumping ?t1" using fold_lane_keeps [OF q, of ?t0] ij by simp
  obtain q1 where t1q: "frameCallbacks ?t1 = q1" "laneOnly q1"
    using fold_lane_keeps [OF q, of ?t0] by auto
  obtain r1 where t3: "frameCallbacks ?t3 = frameCallbacks ?t2 @ r1" "laneOnly r1"
    using fold_lane_keeps [OF r, of ?t2] by blast
  have t3j: "isJumping ?t3 = isJumping ?t2" "py (player ?t3) = py (player ?t2)"
    using fold_lane_keeps [OF r, of ?t2] by blast+
  show ?thesis
  proof (cases "c < 18")
    case True
    note lt = jumpProgressAt_below [OF True]
    have t2q: "frameCallbacks ?t2 = q1 @ [AnimateJump y0 (jumpProgressAt (Suc c))]"
      unfolding animateJump_continues(1) [OF lt] t1q(1) jumpProgressAt_step ..
    have t2j: "isJumping ?t2"
      unfolding animateJump_continues(2) [OF lt] by (rule t1j)
    have "frameCallbacks ?t3 = q1 @ [AnimateJump y0 (jumpProgressAt (Suc c))] @ r1"
      unfolding t3(1) t2q by simp
    then have "jumpQueued y0 (jumpProgressAt (Suc c)) (frameCallbacks ?t3)"
      using t1q(2) t3(2) by (rule jumpQueuedI)
    moreover have "isJumping ?t3" unfolding t3j(1) by (rule t2j)
    moreover have "Suc c < 19" using True by simp
    ultimately show ?thesis unfolding f jumpInFlight_def by simp
  next
    case False
    then have c: "c = 18" using \<open>c < 19\<close> by simp
    have nl: "\<not> jumpProgressAt c + 5 / 100 < 1" unfolding c by (rule jumpProgressAt_end)
    note l = animateJump_lands [OF nl, of y0 ?t1]
    have "\<not> isJumping ?t3" unfolding t3j(1) by (rule l(2))
    moreover have "py (player ?t3) = y0" unfolding t3j(2) by (rule l(1))
    moreover have "laneOnly (frameCallbacks ?t3)"
      unfolding t3(1) l(3) t1q(1) using t1q(2) t3(2) by simp
    moreover have "\<not> Suc c < 19" using c by simp
    ultimately show ?thesis unfolding f jumpInFlight_def by simp
  qed
qed

lemma jumpInFlight_Tick:
  assumes "jumpInFlight y0 c t"
  shows "jumpInFlight y0 c (updateGame t)"
  using assms by (simp add: jumpInFlight_def updateGame_keeps)

lemma jumpInFlight_Lane:
  assumes "jumpInFlight y0 c t"
  shows "jumpInFlight y0 c (moveLanes d t)"
proof -
  obtain r where r: "frameCallbacks (moveLanes d t) = frameCallbacks t @ r" "laneOnly r"
    using moveLanes_keeps(3) [of d t] by blast
  show ?thesis
  proof (cases "c < 19")
    case True
    then have ij: "isJumping t" and jq: "jumpQueued y0 (jumpProgressAt c) (frameCallbacks t)"
      using assms by (simp_all add: jumpInFlight_def)
    obtain q r0 where fc: "frameCallbacks t = q @ [AnimateJump y0 (jumpProgressAt c)] @ r0"
      and q: "laneOnly q" and r0: "laneOnly r0"
      using jq unfolding jumpQueued_def by blast
    have "frameCallbacks (moveLanes d t) = q @ [AnimateJump y0 (jumpProgressAt c)] @ (r0 @ r)"
      unfolding r(1) fc by simp
    moreover have "laneOnly (r0 @ r)" using r0 r(2) by simp
    ultimately have "jumpQueued y0 (jumpProgressAt c) (frameCallbacks (moveLanes d t))"
      using q by (intro jumpQueuedI [of _ q _ _ "r0 @ r"]) simp_all
    then show ?thesis
      unfolding jumpInFlight_def using True ij moveLanes_keeps(1) [of d t] by simp
  next
    case False
    then show ?thesis
      using assms r by (simp add: jumpInFlight_def moveLanes_keeps(1,2))
  qed
qed

lemma jumpInFlight_run:
  assumes "\<not> isJumping s" "laneOnly (frameCallbacks s)"
  shows "jumpInFlight (py (player s)) (count_list es Frame) (fold applyEvent es (jump s))"
proof (induction es rule: rev_induct)
  case Nil
  have j: "jump s = animateJump (py (player s)) 0 (s\<lparr>isJumping := True\<rparr>)"
    using assms(1) by (simp add: jump_def Let_def)
  have lt: "(0 :: real) + 5 / 100 < 1" by simp
  have "frameCallbacks (jump s) = frameCallbacks s @ [AnimateJump (py (player s)) (jumpProgressAt 0)] @ []"
    unfolding j animateJump_continues(1) [OF lt] jumpProgressAt_0 by simp
  then have "jumpQueued (py (player s)) (jumpProgressAt 0) (frameCallbacks (jump s))"
    using assms(2) by (rule jumpQueuedI) simp
  moreover have "isJumping (jump s)"
    unfolding j animateJump_continues(2) [OF lt] by simp
  ultimately show ?case by (simp add: jumpInFlight_def)
next
  case (snoc e es)
  show ?case
  proof (cases e)
    case Frame
    then show ?thesis using jumpInFlight_Frame [OF snoc] by simp
  next
    case Tick
    then show ?thesis using jumpInFlight_Tick [OF snoc] by simp
  next
    case (Lane d)
    then show ?thesis using jumpInFlight_Lane [OF snoc] by simp
  qed
qed

text \<open>
  C8. A jump triggered while \<open>isJumping\<close> is false sets the flag. Over the following
  animation frames the flag is true up to some frame, at most the 19th, and false from
  then on: it goes from false to true to false once. When no closure of an earlier jump
  is still queued, the flag is true for exactly the \<open>19\<close> frames the animation takes,
  also with frame updates and lane changes in between, and from the frame where the
  animation ends the player's height is what it was before the jump. At the 19th frame
  the player's height is exactly the height before the jump in every case. A jump
  triggered while \<open>isJumping\<close> is true returns the state as it is.
\<close>

theorem jump_once:
  assumes "\<not> isJumping s"
  shows "isJumping (jump s)
    \<and> (\<exists>n. 0 < n \<and> n \<le> 19 \<and> (\<forall>k. isJumping ((animationFrame ^^ k) (jump s)) \<longleftrightarrow> k < n))
    \<and> (laneOnly (frameCallbacks s) \<longrightarrow>
          (\<forall>k. isJumping ((animationFrame ^^ k) (jump s)) \<longleftrightarrow> k < 19))
    \<and> (laneOnly (frameCallbacks s) \<longrightarrow>
          (\<forall>es. (isJumping (fold applyEvent es (jump s)) \<longleftrightarrow> count_list es Frame < 19)
              \<and> (19 \<le> count_list es Frame \<longrightarrow>
                    py (player (fold applyEvent es (jump s))) = py (player s))))
    \<and> py (player ((animationFrame ^^ 19) (jump s))) = py (player s)
    \<and> jump (jump s) = jump s
    \<and> (isJumping t \<longrightarrow> jump t = t)"
proof -
  let ?J = "\<lambda>k. isJumping ((animationFrame ^^ k) (jump s))"
  have start: "?J 0" using jump_starts(1) [OF assms] by simp
  have land: "\<not> ?J 19" by (rule jump_lands(2) [OF assms])
  have anti: "\<not> ?J k \<Longrightarrow> k \<le> m \<Longrightarrow> \<not> ?J m" for k m
    using isJumping_frames [of k "m - k" "jump s"] by auto
  define n where "n = (LEAST k. \<not> ?J k)"
  have n1: "\<not> ?J n" unfolding n_def by (rule LeastI [of "\<lambda>k. \<not> ?J k", OF land])
  have n2: "n \<le> 19" unfolding n_def by (rule Least_le [of "\<lambda>k. \<not> ?J k", OF land])
  have n3: "?J k" if "k < n" for k
    using not_less_Least [of k "\<lambda>k. \<not> ?J k"] that unfolding n_def by blast
  have n0: "0 < n" using start n1 by (cases n) auto
  have once: "\<forall>k. ?J k \<longleftrightarrow> k < n"
    using n3 anti [OF n1] by (meson not_le_imp_less)
  have clean: "\<forall>k. ?J k \<longleftrightarrow> k < 19" if c: "laneOnly (frameCallbacks s)"
  proof (intro allI iffI)
    fix k
    assume "?J k"
    then show "k < 19" using anti [OF land, of k] by (meson not_le_imp_less)
  next
    fix k :: nat
    assume "k < 19"
    then have "k \<le> 18" by simp
    then show "?J k" using jump_queue [OF assms, of k] c unfolding laneOnly_def by blast
  qed
  have events: "\<forall>es. (isJumping (fold applyEvent es (jump s)) \<longleftrightarrow> count_list es Frame < 19)
              \<and> (19 \<le> count_list es Frame \<longrightarrow>
                    py (player (fold applyEvent es (jump s))) = py (player s))"
    if c: "laneOnly (frameCallbacks s)"
  proof
    fix es
    show "(isJumping (fold applyEvent es (jump s)) \<longleftrightarrow> count_list es Frame < 19)
              \<and> (19 \<le> count_list es Frame \<longrightarrow>
                    py (player (fold applyEvent es (jump s))) = py (player s))"
      using jumpInFlight_run [OF assms c, of es]
      by (cases "count_list es Frame < 19") (simp_all add: jumpInFlight_def)
  qed
  have second: "jump (jump s) = jump s"
    using jump_starts(1) [OF assms] by (simp add: jump_def [of "jump s"])
  have noeffect: "isJumping t \<longrightarrow> jump t = t" by (simp add: jump_def)
  show ?thesis
    using jump_starts(1) [OF assms] n0 n2 once clean events jump_lands(1) [OF assms] second noeffect
    by blast
qed

theorem jump_once_witness:
  "\<not> isJumping (startGame exampleGame)
   \<and> laneOnly (frameCallbacks (startGame exampleGame))
   \<and> isJumping (jump (startGame exampleGame))
   \<and> (\<forall>k. isJumping ((animationFrame ^^ k) (jump (startGame exampleGame))) \<longleftrightarrow> k < 19)
   \<and> isJumping (fold applyEvent [Tick, Frame, Lane 1, Frame, Tick] (jump (startGame exampleGame)))
   \<and> py (player ((animationFrame ^^ 19) (jump (startGame exampleGame)))) = 0
   \<and> jump (jump (startGame exampleGame)) = jump (startGame exampleGame)"
proof -
  let ?w = "startGame exampleGame"
  have h: "\<not> isJumping ?w" by (simp add: startGame_def exampleGame_def)
  have c: "laneOnly (frameCallbacks ?w)"
    by (simp add: startGame_def exampleGame_def)
  have y: "py (player ?w) = 0" by (simp add: startGame_def exampleGame_def)
  note t = jump_once [OF h, of ?w]
  have 1: "isJumping (jump ?w)" by (rule conjunct1 [OF t])
  have 2: "\<forall>k. isJumping ((animationFrame ^^ k) (jump ?w)) \<longleftrightarrow> k < 19"
    by (rule mp [OF conjunct1 [OF conjunct2 [OF conjunct2 [OF t]]] c])
  note e = spec [OF mp [OF conjunct1 [OF conjunct2 [OF conjunct2 [OF conjunct2 [OF t]]]] c],
      of "[Tick, Frame, Lane 1, Frame, Tick]"]
  have n: "count_list [Tick, Frame, Lane 1, Frame, Tick] Frame < 19" by simp
  have 3: "isJumping (fold applyEvent [Tick, Frame, Lane 1, Frame, Tick] (jump ?w))"
    by (rule iffD2 [OF conjunct1 [OF e] n])
  have 4: "py (player ((animationFrame ^^ 19) (jump ?w))) = 0"
    by (rule trans [OF conjunct1 [OF conjunct2 [OF conjunct2 [OF conjunct2 [OF conjunct2 [OF t]]]]] y])
  have 5: "jump (jump ?w) = jump ?w"
    by (rule conjunct1 [OF conjunct2 [OF conjunct2 [OF conjunct2 [OF conjunct2 [OF conjunct2 [OF t]]]]]])
  show ?thesis by (intro conjI) (rule h c 1 2 3 4 5)+
qed

end
